theory Spec2Isabelle
  imports Main "HOL-Library.Word"
begin

unbundle bit_operations_syntax

section \<open>The SMC fuzzer (src/kernel_modules/smc_fuzzer.c)\<close>

subsection \<open>Data model\<close>

type_synonym u32 = "32 word"
type_synonym u64 = "64 word"

text \<open>
  \<^verbatim>\<open>struct fuzz_stats\<close>. The six counters are \<^verbatim>\<open>u64\<close> and wrap around;
  \<^verbatim>\<open>last_result\<close> is an \<^verbatim>\<open>s64\<close>, kept as its 64 bits and read with \<open>sint\<close>.
\<close>

record fuzz_stats =
  total_iterations :: u64
  crashes :: u64
  hangs :: u64
  interesting_cases :: u64
  valid_responses :: u64
  error_responses :: u64
  last_smc_id :: u32
  last_result :: u64

text \<open>\<^verbatim>\<open>struct arm_smccc_res\<close> of linux/arm-smccc.h: the four result registers.\<close>

record arm_smccc_res =
  a0 :: u64
  a1 :: u64
  a2 :: u64
  a3 :: u64

text \<open>The kernel log lines the module prints (\<^verbatim>\<open>pr_info\<close>, \<^verbatim>\<open>pr_err\<close>), with their arguments.\<close>

datatype klog =
    Starting_campaign u32
  | Stopped_by_user
  | Campaign_complete nat
  | Testing_known
  | Smc_result u32 u64
  | Fuzzing_enabled
  | Fuzzing_disabled
  | Statistics_reset
  | Unknown_command
  | Initializing
  | Proc_create_failed
  | Module_loaded
  | Interface_available

text \<open>
  What the module does to the outside, in order: an SMC with its function identifier and
  the seven argument registers that follow it, a call of \<^verbatim>\<open>cond_resched()\<close>, a log line.
\<close>

datatype event =
    SmcCall u32 "u64 list"
  | CondResched
  | Printk klog

text \<open>
  The state of the loaded module and of what surrounds it. \<open>stats\<close> and
  \<open>fuzzing_enabled\<close> are the module's two globals. The rest is the environment:
  \<^item> \<open>rng\<close> is the kernel's entropy, one 64-bit word per draw, and \<open>rng_pos\<close> counts
    the draws made so far;
  \<^item> \<open>smc\<close> is the secure monitor: its answer to a call may depend on everything the
    module did before (\<open>trace\<close>);
  \<^item> \<open>flag_writes\<close> is the operator on another thread: \<open>flag_writes k = Some b\<close> says that
    a write of \<open>b\<close> to \<open>fuzzing_enabled\<close> lands just before the campaign loop reads the
    flag for the \<open>k\<close>-th time, and \<open>flag_reads\<close> counts those reads.
\<close>

record world =
  stats :: fuzz_stats
  fuzzing_enabled :: bool
  rng :: "nat \<Rightarrow> u64"
  rng_pos :: nat
  smc :: "event list \<Rightarrow> u32 \<Rightarrow> u64 list \<Rightarrow> arm_smccc_res"
  flag_writes :: "nat \<Rightarrow> bool option"
  flag_reads :: nat
  trace :: "event list"

text \<open>\<^verbatim>\<open>static struct fuzz_stats stats = {0}\<close>, and what \<^verbatim>\<open>memset(&stats, 0, sizeof(stats))\<close> leaves.\<close>

definition zero_stats :: fuzz_stats where
  "zero_stats =
     \<lparr>total_iterations = 0, crashes = 0, hangs = 0, interesting_cases = 0,
      valid_responses = 0, error_responses = 0, last_smc_id = 0, last_result = 0\<rparr>"

text \<open>The seed corpus \<^verbatim>\<open>known_smc_ids[]\<close>, in the order of the array.\<close>

definition known_smc_ids :: "u32 list" where
  "known_smc_ids =
     [0xb2000003, 0xb2000004, 0xb2000007, 0xb2000009, 0xb200000a, 0xb200000b]"

subsection \<open>The kernel services the module calls\<close>

definition printk :: "klog \<Rightarrow> world \<Rightarrow> world" where
  "printk m w = w\<lparr>trace := trace w @ [Printk m]\<rparr>"

definition cond_resched :: "world \<Rightarrow> world" where
  "cond_resched w = w\<lparr>trace := trace w @ [CondResched]\<rparr>"

definition get_random_u64 :: "world \<Rightarrow> u64 \<times> world" where
  "get_random_u64 w = (rng w (rng_pos w), w\<lparr>rng_pos := rng_pos w + 1\<rparr>)"

definition get_random_u32 :: "world \<Rightarrow> u32 \<times> world" where
  "get_random_u32 w = (ucast (rng w (rng_pos w)), w\<lparr>rng_pos := rng_pos w + 1\<rparr>)"

definition arm_smccc_smc ::
  "u32 \<Rightarrow> u64 \<Rightarrow> u64 \<Rightarrow> u64 \<Rightarrow> u64 \<Rightarrow> u64 \<Rightarrow> u64 \<Rightarrow> u64 \<Rightarrow> world \<Rightarrow> arm_smccc_res \<times> world" where
  "arm_smccc_smc x0 x1 x2 x3 x4 x5 x6 x7 w =
     (smc w (trace w) x0 [x1, x2, x3, x4, x5, x6, x7],
      w\<lparr>trace := trace w @ [SmcCall x0 [x1, x2, x3, x4, x5, x6, x7]]\<rparr>)"

subsection \<open>execute_smc: one call, classified and counted\<close>

definition execute_smc ::
  "u32 \<Rightarrow> u64 \<Rightarrow> u64 \<Rightarrow> u64 \<Rightarrow> u64 \<Rightarrow> u64 \<Rightarrow> u64 \<Rightarrow> world \<Rightarrow> (int \<times> arm_smccc_res) \<times> world" where
  "execute_smc func_id arg1 arg2 arg3 arg4 arg5 arg6 w =
     (let (res, w1) = arm_smccc_smc func_id arg1 arg2 arg3 arg4 arg5 arg6 0 w;
          st = (stats w1)\<lparr>last_smc_id := func_id, last_result := a0 res\<rparr>
      in if a0 res = 0 then
           ((0, res), w1\<lparr>stats := st\<lparr>valid_responses := valid_responses st + 1\<rparr>\<rparr>)
         else if sint (a0 res) < 0 then
           ((- 1, res), w1\<lparr>stats := st\<lparr>error_responses := error_responses st + 1\<rparr>\<rparr>)
         else
           ((0, res), w1\<lparr>stats := st\<lparr>interesting_cases := interesting_cases st + 1\<rparr>\<rparr>))"

subsection \<open>The two generators\<close>

text \<open>
  \<^verbatim>\<open>get_random_u32() % 2\<close>: a non-zero remainder selects the seed corpus.
\<close>

definition picks_known :: "u32 \<Rightarrow> bool" where
  "picks_known r = (r mod 2 \<noteq> 0)"

text \<open>
  \<^verbatim>\<open>use_known && (get_random_u32() % 2)\<close> draws only when \<open>use_known\<close> holds. The
  index \<^verbatim>\<open>get_random_u32() % ARRAY_SIZE(known_smc_ids)\<close> is computed in 64 bits,
  where the draw has its unsigned value.
\<close>

definition generate_random_smc_id :: "bool \<Rightarrow> world \<Rightarrow> u32 \<times> world" where
  "generate_random_smc_id use_known w =
     (let (known, w1) =
            (if use_known then (let (r, w') = get_random_u32 w in (picks_known r, w'))
             else (False, w))
      in if known then
           (let (r, w2) = get_random_u32 w1;
                idx = unat r mod length known_smc_ids
            in (known_smc_ids ! idx, w2))
         else
           (let (r, w2) = get_random_u32 w1
            in (0xb2000000 OR (r AND 0x00ffffff), w2)))"

definition generate_random_param :: "world \<Rightarrow> u64 \<times> world" where
  "generate_random_param w =
     (let (r, w1) = get_random_u32 w;
          pattern = r mod 10
      in if pattern = 0 then (0, w1)
         else if pattern = 1 then (0xFFFFFFFFFFFFFFFF, w1)
         else if pattern = 2 then (0x8000000000000000, w1)
         else if pattern = 3 then (0x7FFFFFFFFFFFFFFF, w1)
         else if pattern = 4 then (let (v, w2) = get_random_u32 w1 in (ucast v, w2))
         else if pattern = 5 then get_random_u64 w1
         else if pattern = 6 then (0x1000, w1)
         else if pattern = 7 then
           (let (v, w2) = get_random_u32 w1 in (ucast (0x1000 + (v AND 0xFFF)), w2))
         else if pattern = 8 then (- 1, w1)
         else (let (v, w2) = get_random_u64 w1 in (v AND 0xFFFFFFFF, w2)))"

subsection \<open>fuzz_iteration\<close>

text \<open>
  \<^verbatim>\<open>for (i = 0; i < 6; i++) params[i] = generate_random_param();\<close> with the number
  of slots still to fill as the argument: the head of the list is \<^verbatim>\<open>params[0]\<close>.
\<close>

fun generate_params :: "nat \<Rightarrow> world \<Rightarrow> u64 list \<times> world" where
  "generate_params 0 w = ([], w)"
| "generate_params (Suc k) w =
     (let (p, w1) = generate_random_param w;
          (ps, w2) = generate_params k w1
      in (p # ps, w2))"

text \<open>
  The \<^verbatim>\<open>pr_debug\<close> at the end of the iteration prints nothing unless the module is
  built with debugging; it is left out.
\<close>

definition fuzz_iteration :: "world \<Rightarrow> int \<times> world" where
  "fuzz_iteration w =
     (let w0 = w\<lparr>stats := (stats w)\<lparr>total_iterations := total_iterations (stats w) + 1\<rparr>\<rparr>;
          (func_id, w1) = generate_random_smc_id True w0;
          (params, w2) = generate_params 6 w1;
          (rr, w3) = execute_smc func_id (params ! 0) (params ! 1) (params ! 2)
                       (params ! 3) (params ! 4) (params ! 5) w2
      in (0, w3))"

subsection \<open>run_fuzzing_campaign\<close>

text \<open>
  One read of the global \<^verbatim>\<open>fuzzing_enabled\<close> by the campaign loop: a write of the
  operator's that is due lands first.
\<close>

definition read_fuzzing_enabled :: "world \<Rightarrow> bool \<times> world" where
  "read_fuzzing_enabled w =
     (let w1 = (case flag_writes w (flag_reads w) of
                  None \<Rightarrow> w
                | Some b \<Rightarrow> w\<lparr>fuzzing_enabled := b\<rparr>)
      in (fuzzing_enabled w1, w1\<lparr>flag_reads := flag_reads w + 1\<rparr>))"

text \<open>
  What one pass of the loop does once the flag has been found set: the iteration, then
  \<^verbatim>\<open>if ((i % 100) == 0) cond_resched();\<close>.
\<close>

definition campaign_body :: "nat \<Rightarrow> world \<Rightarrow> world" where
  "campaign_body i w =
     (let (r, w1) = fuzz_iteration w
      in if i mod 100 = 0 then cond_resched w1 else w1)"

text \<open>
  The \<^verbatim>\<open>for (i = 0; i < iterations; i++)\<close> loop from index \<open>i\<close> on; it returns the
  index it stopped at. Both \<^verbatim>\<open>i\<close> and \<^verbatim>\<open>iterations\<close> are \<^verbatim>\<open>u32\<close>; \<^verbatim>\<open>i\<close> never
  exceeds \<^verbatim>\<open>iterations\<close>, so it cannot wrap and is a natural number here.
\<close>

function campaign_loop :: "nat \<Rightarrow> nat \<Rightarrow> world \<Rightarrow> nat \<times> world" where
  "campaign_loop iterations i w =
     (if i < iterations then
        (if \<not> fst (read_fuzzing_enabled w) then
           (i, printk Stopped_by_user (snd (read_fuzzing_enabled w)))
         else
           campaign_loop iterations (i + 1) (campaign_body i (snd (read_fuzzing_enabled w))))
      else (i, w))"
  by pat_completeness auto
termination
  by (relation "measure (\<lambda>(iterations, i, w). iterations - i)") auto

definition run_fuzzing_campaign :: "u32 \<Rightarrow> world \<Rightarrow> int \<times> world" where
  "run_fuzzing_campaign iterations w =
     (let (i, w1) = campaign_loop (unat iterations) 0 (printk (Starting_campaign iterations) w)
      in (0, printk (Campaign_complete i) w1))"

subsection \<open>test_known_smcs\<close>

text \<open>The loop over \<^verbatim>\<open>known_smc_ids\<close>, on the entries still to be tested.\<close>

fun test_known_loop :: "u32 list \<Rightarrow> world \<Rightarrow> world" where
  "test_known_loop [] w = w"
| "test_known_loop (smc_id # ids) w =
     (let (rr, w1) = execute_smc smc_id 0 0 0 0 0 0 w
      in test_known_loop ids (printk (Smc_result smc_id (a0 (snd rr))) w1))"

definition test_known_smcs :: "world \<Rightarrow> int \<times> world" where
  "test_known_smcs w = (0, test_known_loop known_smc_ids (printk Testing_known w))"

subsection \<open>proc_read\<close>

text \<open>An argument of the \<^verbatim>\<open>snprintf\<close> call, under the conversion that prints it.\<close>

datatype fmt_arg = Fmt_s string | Fmt_llu u64 | Fmt_08x u32 | Fmt_llx u64

text \<open>
  The nine arguments of the \<^verbatim>\<open>snprintf\<close> call of \<^verbatim>\<open>proc_read\<close>, in the order of the
  call, each with the label the format string prints before it.
\<close>

definition status_args :: "world \<Rightarrow> (string \<times> fmt_arg) list" where
  "status_args w =
     [(''Fuzzing Enabled'', Fmt_s (if fuzzing_enabled w then ''yes'' else ''no'')),
      (''Total Iterations'', Fmt_llu (total_iterations (stats w))),
      (''Crashes'', Fmt_llu (crashes (stats w))),
      (''Hangs'', Fmt_llu (hangs (stats w))),
      (''Interesting Cases'', Fmt_llu (interesting_cases (stats w))),
      (''Valid Responses'', Fmt_llu (valid_responses (stats w))),
      (''Error Responses'', Fmt_llu (error_responses (stats w))),
      (''Last SMC ID'', Fmt_08x (last_smc_id (stats w))),
      (''Last Result'', Fmt_llx (last_result (stats w)))]"

text \<open>
  The status a read returns: nothing once the file offset has moved (\<^verbatim>\<open>*ppos > 0\<close>).
  The byte count and the copy to user space are not modelled.
\<close>

definition proc_read :: "nat \<Rightarrow> world \<Rightarrow> (string \<times> fmt_arg) list option" where
  "proc_read ppos w = (if ppos > 0 then None else Some (status_args w))"

subsection \<open>proc_write\<close>

text \<open>
  The kernel's string functions, as \<^verbatim>\<open>proc_write\<close> uses them. \<^verbatim>\<open>isspace\<close> is the
  kernel's (lib/ctype.c), where the byte 0xA0 is a space too.
\<close>

definition isspace :: "char \<Rightarrow> bool" where
  "isspace c = ((of_char c :: nat) \<in> {9, 10, 11, 12, 13, 32, 160})"

definition isdigit :: "char \<Rightarrow> bool" where
  "isdigit c = (48 \<le> (of_char c :: nat) \<and> (of_char c :: nat) \<le> 57)"

definition skip_spaces :: "string \<Rightarrow> string" where
  "skip_spaces str = dropWhile isspace str"

text \<open>
  \<^verbatim>\<open>simple_strntoull\<close> in base 10 with no limit on the length: the leading digits,
  accumulated in 64 bits (\<^verbatim>\<open>res = res * base + val\<close> wraps around).
\<close>

definition simple_strntoull :: "string \<Rightarrow> u64" where
  "simple_strntoull str =
     foldl (\<lambda>res c. res * 10 + of_nat (of_char c - 48)) 0 (takeWhile isdigit str)"

text \<open>
  \<^verbatim>\<open>sscanf(buf, "fuzz %u", &iterations) == 1\<close> with the kernel's \<^verbatim>\<open>vsscanf\<close>: the
  four letters match exactly, the blank of the format skips any white space (none
  too), the input must not end there, and a digit must follow; \<^verbatim>\<open>%u\<close> takes no sign.
  The value is stored through an \<^verbatim>\<open>unsigned int *\<close>, so its low 32 bits remain.
  \<open>None\<close> is a return value other than 1.
\<close>

definition sscanf_fuzz_u :: "string \<Rightarrow> u32 option" where
  "sscanf_fuzz_u buf =
     (if take 4 buf \<noteq> ''fuzz'' then None
      else
        (let str = skip_spaces (drop 4 buf)
         in case str of
              [] \<Rightarrow> None
            | digit # rest \<Rightarrow>
                if \<not> isdigit digit then None else Some (ucast (simple_strntoull str))))"

text \<open>
  \<^verbatim>\<open>strncmp(buf, lit, n) == 0\<close> for strings without a NUL inside: the first \<open>n\<close>
  characters agree (a string that ends earlier ends with its NUL there).
\<close>

definition strncmp_eq :: "string \<Rightarrow> string \<Rightarrow> nat \<Rightarrow> bool" where
  "strncmp_eq buf lit n = (take n buf = take n lit)"

text \<open>
  What the operator writes to the file: \<open>count\<close> bytes at a user address, or an address
  \<^verbatim>\<open>copy_from_user\<close> cannot read. A copy of no bytes reads nothing and succeeds
  whatever the address.
\<close>

datatype user_buf = User_bytes string | Bad_address nat

fun count_of :: "user_buf \<Rightarrow> nat" where
  "count_of (User_bytes bytes) = length bytes"
| "count_of (Bad_address n) = n"

fun copy_from_user :: "user_buf \<Rightarrow> string option" where
  "copy_from_user (User_bytes bytes) = Some bytes"
| "copy_from_user (Bad_address n) = (if n = 0 then Some [] else None)"

text \<open>\<^verbatim>\<open>buf[count] = '\0'\<close>: as a C string, the buffer ends at its first NUL.\<close>

definition c_string :: "string \<Rightarrow> string" where
  "c_string bytes = takeWhile (\<lambda>c. c \<noteq> CHR 0x00) bytes"

text \<open>The chain of tests that parses the command, in the order of the source.\<close>

datatype command = Fuzz u32 | Test | Enable | Disable | Reset

definition parse_command :: "string \<Rightarrow> command option" where
  "parse_command buf =
     (case sscanf_fuzz_u buf of
        Some iterations \<Rightarrow> Some (Fuzz iterations)
      | None \<Rightarrow>
          if strncmp_eq buf ''test'' 4 then Some Test
          else if strncmp_eq buf ''enable'' 6 then Some Enable
          else if strncmp_eq buf ''disable'' 7 then Some Disable
          else if strncmp_eq buf ''reset'' 5 then Some Reset
          else None)"

text \<open>The branch of \<^verbatim>\<open>proc_write\<close> that a command selects.\<close>

fun run_command :: "command \<Rightarrow> world \<Rightarrow> world" where
  "run_command (Fuzz iterations) w = snd (run_fuzzing_campaign iterations w)"
| "run_command Test w = snd (test_known_smcs w)"
| "run_command Enable w = printk Fuzzing_enabled (w\<lparr>fuzzing_enabled := True\<rparr>)"
| "run_command Disable w = printk Fuzzing_disabled (w\<lparr>fuzzing_enabled := False\<rparr>)"
| "run_command Reset w = printk Statistics_reset (w\<lparr>stats := zero_stats\<rparr>)"

definition EINVAL :: int where "EINVAL = 22"
definition EFAULT :: int where "EFAULT = 14"
definition ENOMEM :: int where "ENOMEM = 12"

definition proc_write :: "user_buf \<Rightarrow> world \<Rightarrow> int \<times> world" where
  "proc_write ubuf w =
     (if count_of ubuf \<ge> 128 then (- EINVAL, w)
      else
        (case copy_from_user ubuf of
           None \<Rightarrow> (- EFAULT, w)
         | Some bytes \<Rightarrow>
             (case parse_command (c_string bytes) of
                Some c \<Rightarrow> (int (count_of ubuf), run_command c w)
              | None \<Rightarrow> (- EINVAL, printk Unknown_command w))))"

subsection \<open>Module load\<close>

text \<open>
  The module as \<^verbatim>\<open>insmod\<close> finds it: the static initialisers of the two globals, in
  an environment that has seen nothing yet.
\<close>

definition insmod_state ::
  "(nat \<Rightarrow> u64) \<Rightarrow> (event list \<Rightarrow> u32 \<Rightarrow> u64 list \<Rightarrow> arm_smccc_res) \<Rightarrow> (nat \<Rightarrow> bool option) \<Rightarrow> world" where
  "insmod_state entropy monitor operator =
     \<lparr>stats = zero_stats, fuzzing_enabled = True, rng = entropy, rng_pos = 0,
      smc = monitor, flag_writes = operator, flag_reads = 0, trace = []\<rparr>"

text \<open>\<^verbatim>\<open>smc_fuzzer_init\<close>; \<open>proc_created\<close> says whether \<^verbatim>\<open>proc_create\<close> returned an entry.\<close>

definition smc_fuzzer_init :: "bool \<Rightarrow> world \<Rightarrow> int \<times> world" where
  "smc_fuzzer_init proc_created w =
     (let w1 = printk Initializing w
      in if \<not> proc_created then (- ENOMEM, printk Proc_create_failed w1)
         else
           (let w2 = printk Interface_available (printk Module_loaded w1);
                (r, w3) = test_known_smcs w2
            in (0, w3)))"

subsection \<open>Sessions of the operator\<close>

text \<open>Commands issued one after the other, each finished before the next starts.\<close>

fun run_commands :: "command list \<Rightarrow> world \<Rightarrow> world" where
  "run_commands [] w = w"
| "run_commands (c # cs) w = run_commands cs (run_command c w)"

subsection \<open>Observations on states and traces\<close>

text \<open>The calls the classifier has counted: the three outcome counters together.\<close>

definition classified :: "fuzz_stats \<Rightarrow> u64" where
  "classified st = valid_responses st + error_responses st + interesting_cases st"

text \<open>\<open>w'\<close> differs from \<open>w\<close> at most in the number of random draws made.\<close>

definition only_draws :: "world \<Rightarrow> world \<Rightarrow> bool" where
  "only_draws w w' = (w' = w\<lparr>rng_pos := rng_pos w'\<rparr>)"

text \<open>The SMCs of a trace, in order.\<close>

fun smc_calls :: "event list \<Rightarrow> (u32 \<times> u64 list) list" where
  "smc_calls [] = []"
| "smc_calls (SmcCall f args # tr) = (f, args) # smc_calls tr"
| "smc_calls (CondResched # tr) = smc_calls tr"
| "smc_calls (Printk m # tr) = smc_calls tr"

text \<open>
  For each \<^verbatim>\<open>cond_resched()\<close> of a trace, the number of SMCs made before it, counting
  from \<open>c\<close>: the yield that follows the first call of a trace is at 1.
\<close>

fun yield_points :: "nat \<Rightarrow> event list \<Rightarrow> nat list" where
  "yield_points c [] = []"
| "yield_points c (SmcCall f args # tr) = yield_points (c + 1) tr"
| "yield_points c (CondResched # tr) = c # yield_points c tr"
| "yield_points c (Printk m # tr) = yield_points c tr"

text \<open>What happened between two states.\<close>

definition new_events :: "world \<Rightarrow> world \<Rightarrow> event list" where
  "new_events w w' = drop (length (trace w)) (trace w')"

text \<open>The index at which the loop of \<^verbatim>\<open>run_fuzzing_campaign\<close> stops, which it logs.\<close>

definition campaign_count :: "u32 \<Rightarrow> world \<Rightarrow> nat" where
  "campaign_count iterations w =
     fst (campaign_loop (unat iterations) 0 (printk (Starting_campaign iterations) w))"

text \<open>
  The runs of \<^verbatim>\<open>test_known_smcs\<close> that the statistics still hold: \<open>k\<close> before the
  commands, one more with each \<open>Test\<close>, none after a \<open>Reset\<close>.
\<close>

fun pending_tests :: "nat \<Rightarrow> command list \<Rightarrow> nat" where
  "pending_tests k [] = k"
| "pending_tests k (Test # cs) = pending_tests (k + 1) cs"
| "pending_tests k (Reset # cs) = pending_tests 0 cs"
| "pending_tests k (c # cs) = pending_tests k cs"

subsection \<open>Concrete environments\<close>

text \<open>A monitor that answers every call with zeros, and an entropy source of zeros.\<close>

definition zero_res :: arm_smccc_res where
  "zero_res = \<lparr>a0 = 0, a1 = 0, a2 = 0, a3 = 0\<rparr>"

definition quiet_world :: world where
  "quiet_world = insmod_state (\<lambda>k. 0) (\<lambda>tr f args. zero_res) (\<lambda>k. None)"

text \<open>The same, with an operator who clears the flag after the 37th iteration.\<close>

definition disable_after_37 :: world where
  "disable_after_37 =
     insmod_state (\<lambda>k. 0) (\<lambda>tr f args. zero_res) (\<lambda>k. if k = 37 then Some False else None)"

text \<open>The same with an entropy source of ones: every draw is odd.\<close>

definition odd_world :: world where
  "odd_world = insmod_state (\<lambda>k. 1) (\<lambda>tr f args. zero_res) (\<lambda>k. None)"

subsection \<open>The pattern set of the parameter generator, as the specification names it\<close>

text \<open>
  The ten patterns in the order of the specification's list, the pattern a first draw
  selects, the value of a pattern given the second draw, and the number of further
  draws a pattern makes.
\<close>

datatype pattern =
    Zero | All_ones | Sign_bit | Max_positive | Random_32 | Random_64
  | Page_size | Near_page | All_ones_alt | Random_low_32

definition pattern_set :: "pattern list" where
  "pattern_set =
     [Zero, All_ones, Sign_bit, Max_positive, Random_32, Random_64,
      Page_size, Near_page, All_ones_alt, Random_low_32]"

definition pattern_of :: "u32 \<Rightarrow> pattern" where
  "pattern_of r = pattern_set ! (unat r mod 10)"

fun pattern_value :: "pattern \<Rightarrow> u64 \<Rightarrow> u64" where
  "pattern_value Zero d = 0"
| "pattern_value All_ones d = 2 ^ 64 - 1"
| "pattern_value Sign_bit d = 2 ^ 63"
| "pattern_value Max_positive d = 2 ^ 63 - 1"
| "pattern_value Random_32 d = ucast (ucast d :: u32)"
| "pattern_value Random_64 d = d"
| "pattern_value Page_size d = 4096"
| "pattern_value Near_page d = ucast (4096 + ((ucast d :: u32) AND 4095))"
| "pattern_value All_ones_alt d = 2 ^ 64 - 1"
| "pattern_value Random_low_32 d = d AND (2 ^ 32 - 1)"

fun pattern_draws :: "pattern \<Rightarrow> nat" where
  "pattern_draws Random_32 = 1"
| "pattern_draws Random_64 = 1"
| "pattern_draws Near_page = 1"
| "pattern_draws Random_low_32 = 1"
| "pattern_draws p = 0"

subsection \<open>A read that overlaps a command\<close>

text \<open>
  Neither \<^verbatim>\<open>proc_read\<close> nor \<^verbatim>\<open>proc_write\<close> takes a lock, and the arguments of the
  \<^verbatim>\<open>snprintf\<close> call are loaded from the globals one by one. \<open>racing_read k c w\<close> is the
  status a read returns when another thread's command \<open>c\<close> takes effect after the
  first \<open>k\<close> of these loads, taken in the order of the argument list, and before the
  others.
\<close>

definition racing_read :: "nat \<Rightarrow> command \<Rightarrow> world \<Rightarrow> (string \<times> fmt_arg) list" where
  "racing_read k c w = take k (status_args w) @ drop k (status_args (run_command c w))"

text \<open>The module just loaded, with the monitor and the entropy of \<open>quiet_world\<close>.\<close>

definition loaded_quiet :: world where
  "loaded_quiet = snd (smc_fuzzer_init True quiet_world)"

section \<open>Lemmas\<close>

subsection \<open>What each function leaves alone\<close>

lemma only_draws_refl: "only_draws w w" by (simp add: only_draws_def)

lemma only_draws_trans: "only_draws w w1 \<Longrightarrow> only_draws w1 w2 \<Longrightarrow> only_draws w w2"
  unfolding only_draws_def by (metis world.update_convs(4) world.surjective world.select_convs)

lemma get_random_u32_only: "only_draws w (snd (get_random_u32 w))"
  by (simp add: only_draws_def get_random_u32_def)

lemma get_random_u64_only: "only_draws w (snd (get_random_u64 w))"
  by (simp add: only_draws_def get_random_u64_def)

lemma generate_random_smc_id_only: "only_draws w (snd (generate_random_smc_id b w))"
  by (simp add: only_draws_def generate_random_smc_id_def get_random_u32_def Let_def split: prod.splits)

lemma generate_random_param_only: "only_draws w (snd (generate_random_param w))"
  by (simp add: only_draws_def generate_random_param_def get_random_u32_def get_random_u64_def Let_def split: prod.splits)

lemma generate_params_only: "only_draws w (snd (generate_params k w))"
proof (induction k arbitrary: w)
  case 0 show ?case by (simp add: only_draws_refl)
next
  case (Suc k)
  have "only_draws w (snd (generate_random_param w))" by (rule generate_random_param_only)
  moreover have "only_draws (snd (generate_random_param w)) (snd (generate_params k (snd (generate_random_param w))))"
    by (rule Suc.IH)
  ultimately show ?case
    by (auto simp: split_beta Let_def intro: only_draws_trans)
qed

lemma generate_params_length: "length (fst (generate_params k w)) = k"
  by (induction k arbitrary: w) (simp_all add: split_beta Let_def)

lemma only_draws_fields:
  assumes "only_draws w w'"
  shows "stats w' = stats w" "fuzzing_enabled w' = fuzzing_enabled w" "rng w' = rng w"
    "smc w' = smc w" "flag_writes w' = flag_writes w" "flag_reads w' = flag_reads w"
    "trace w' = trace w"
proof -
  from assms have e: "w' = w\<lparr>rng_pos := rng_pos w'\<rparr>" by (simp add: only_draws_def)
  show "stats w' = stats w" by (subst e) simp
  show "fuzzing_enabled w' = fuzzing_enabled w" by (subst e) simp
  show "rng w' = rng w" by (subst e) simp
  show "smc w' = smc w" by (subst e) simp
  show "flag_writes w' = flag_writes w" by (subst e) simp
  show "flag_reads w' = flag_reads w" by (subst e) simp
  show "trace w' = trace w" by (subst e) simp
qed

lemma execute_smc_frame:
  "fuzzing_enabled (snd (execute_smc f b1 b2 b3 b4 b5 b6 w)) = fuzzing_enabled w"
  "rng (snd (execute_smc f b1 b2 b3 b4 b5 b6 w)) = rng w"
  "rng_pos (snd (execute_smc f b1 b2 b3 b4 b5 b6 w)) = rng_pos w"
  "smc (snd (execute_smc f b1 b2 b3 b4 b5 b6 w)) = smc w"
  "flag_writes (snd (execute_smc f b1 b2 b3 b4 b5 b6 w)) = flag_writes w"
  "flag_reads (snd (execute_smc f b1 b2 b3 b4 b5 b6 w)) = flag_reads w"
  "trace (snd (execute_smc f b1 b2 b3 b4 b5 b6 w)) = trace w @ [SmcCall f [b1, b2, b3, b4, b5, b6, 0]]"
  by (simp_all add: execute_smc_def arm_smccc_smc_def Let_def)

lemma execute_smc_counters:
  "total_iterations (stats (snd (execute_smc f b1 b2 b3 b4 b5 b6 w))) = total_iterations (stats w)"
  "crashes (stats (snd (execute_smc f b1 b2 b3 b4 b5 b6 w))) = crashes (stats w)"
  "hangs (stats (snd (execute_smc f b1 b2 b3 b4 b5 b6 w))) = hangs (stats w)"
  "classified (stats (snd (execute_smc f b1 b2 b3 b4 b5 b6 w))) = classified (stats w) + 1"
  by (simp_all add: execute_smc_def arm_smccc_smc_def Let_def classified_def)


lemma fuzz_iteration_call:
  "\<exists>f b1 b2 b3 b4 b5 b6 w2.
     only_draws (w\<lparr>stats := (stats w)\<lparr>total_iterations := total_iterations (stats w) + 1\<rparr>\<rparr>) w2 \<and>
     snd (fuzz_iteration w) = snd (execute_smc f b1 b2 b3 b4 b5 b6 w2)"
proof -
  define w0 where "w0 = w\<lparr>stats := (stats w)\<lparr>total_iterations := total_iterations (stats w) + 1\<rparr>\<rparr>"
  define w1 where "w1 = snd (generate_random_smc_id True w0)"
  define w2 where "w2 = snd (generate_params 6 w1)"
  have "only_draws w0 w1" unfolding w1_def by (rule generate_random_smc_id_only)
  moreover have "only_draws w1 w2" unfolding w2_def by (rule generate_params_only)
  ultimately have "only_draws w0 w2" by (rule only_draws_trans)
  moreover have "snd (fuzz_iteration w) =
      snd (execute_smc (fst (generate_random_smc_id True w0))
        (fst (generate_params 6 w1) ! 0) (fst (generate_params 6 w1) ! 1)
        (fst (generate_params 6 w1) ! 2) (fst (generate_params 6 w1) ! 3)
        (fst (generate_params 6 w1) ! 4) (fst (generate_params 6 w1) ! 5) w2)"
    by (simp add: fuzz_iteration_def split_beta Let_def w0_def w1_def w2_def)
  ultimately show ?thesis unfolding w0_def by blast
qed

lemma fuzz_iteration_counters:
  "total_iterations (stats (snd (fuzz_iteration w))) = total_iterations (stats w) + 1"
  "classified (stats (snd (fuzz_iteration w))) = classified (stats w) + 1"
  "crashes (stats (snd (fuzz_iteration w))) = crashes (stats w)"
  "hangs (stats (snd (fuzz_iteration w))) = hangs (stats w)"
proof -
  obtain f b1 b2 b3 b4 b5 b6 w2 where
    d: "only_draws (w\<lparr>stats := (stats w)\<lparr>total_iterations := total_iterations (stats w) + 1\<rparr>\<rparr>) w2"
    and e: "snd (fuzz_iteration w) = snd (execute_smc f b1 b2 b3 b4 b5 b6 w2)"
    using fuzz_iteration_call by blast
  have s: "stats w2 = (stats w)\<lparr>total_iterations := total_iterations (stats w) + 1\<rparr>"
    using only_draws_fields(1)[OF d] by simp
  show "total_iterations (stats (snd (fuzz_iteration w))) = total_iterations (stats w) + 1"
    by (simp add: e execute_smc_counters s)
  have "classified (stats w2) = classified (stats w)"
    by (simp add: s classified_def)
  then show "classified (stats (snd (fuzz_iteration w))) = classified (stats w) + 1"
    by (simp add: e execute_smc_counters)
  show "crashes (stats (snd (fuzz_iteration w))) = crashes (stats w)"
    by (simp add: e execute_smc_counters s)
  show "hangs (stats (snd (fuzz_iteration w))) = hangs (stats w)"
    by (simp add: e execute_smc_counters s)
qed

lemma fuzz_iteration_frame:
  "fuzzing_enabled (snd (fuzz_iteration w)) = fuzzing_enabled w"
  "flag_writes (snd (fuzz_iteration w)) = flag_writes w"
  "flag_reads (snd (fuzz_iteration w)) = flag_reads w"
  "rng (snd (fuzz_iteration w)) = rng w"
  "smc (snd (fuzz_iteration w)) = smc w"
proof -
  obtain f b1 b2 b3 b4 b5 b6 w2 where
    d: "only_draws (w\<lparr>stats := (stats w)\<lparr>total_iterations := total_iterations (stats w) + 1\<rparr>\<rparr>) w2"
    and e: "snd (fuzz_iteration w) = snd (execute_smc f b1 b2 b3 b4 b5 b6 w2)"
    using fuzz_iteration_call by blast
  show "fuzzing_enabled (snd (fuzz_iteration w)) = fuzzing_enabled w"
    using only_draws_fields(2)[OF d] by (simp add: e execute_smc_frame)
  show "flag_writes (snd (fuzz_iteration w)) = flag_writes w"
    using only_draws_fields(5)[OF d] by (simp add: e execute_smc_frame)
  show "flag_reads (snd (fuzz_iteration w)) = flag_reads w"
    using only_draws_fields(6)[OF d] by (simp add: e execute_smc_frame)
  show "rng (snd (fuzz_iteration w)) = rng w"
    using only_draws_fields(3)[OF d] by (simp add: e execute_smc_frame)
  show "smc (snd (fuzz_iteration w)) = smc w"
    using only_draws_fields(4)[OF d] by (simp add: e execute_smc_frame)
qed

lemma fuzz_iteration_trace:
  "\<exists>f args. trace (snd (fuzz_iteration w)) = trace w @ [SmcCall f args]"
proof -
  obtain f b1 b2 b3 b4 b5 b6 w2 where
    d: "only_draws (w\<lparr>stats := (stats w)\<lparr>total_iterations := total_iterations (stats w) + 1\<rparr>\<rparr>) w2"
    and e: "snd (fuzz_iteration w) = snd (execute_smc f b1 b2 b3 b4 b5 b6 w2)"
    using fuzz_iteration_call by blast
  show ?thesis using only_draws_fields(7)[OF d] by (simp add: e execute_smc_frame)
qed

subsection \<open>The campaign loop\<close>

declare campaign_loop.simps [simp del]

lemma read_fuzzing_enabled_frame:
  "stats (snd (read_fuzzing_enabled w)) = stats w"
  "trace (snd (read_fuzzing_enabled w)) = trace w"
  "flag_writes (snd (read_fuzzing_enabled w)) = flag_writes w"
  "flag_reads (snd (read_fuzzing_enabled w)) = flag_reads w + 1"
  "rng (snd (read_fuzzing_enabled w)) = rng w"
  "rng_pos (snd (read_fuzzing_enabled w)) = rng_pos w"
  "smc (snd (read_fuzzing_enabled w)) = smc w"
  "fuzzing_enabled (snd (read_fuzzing_enabled w)) = fst (read_fuzzing_enabled w)"
  by (simp_all add: read_fuzzing_enabled_def Let_def split: option.splits)

lemma read_fuzzing_enabled_value:
  "fst (read_fuzzing_enabled w) =
     (case flag_writes w (flag_reads w) of None \<Rightarrow> fuzzing_enabled w | Some b \<Rightarrow> b)"
  by (simp add: read_fuzzing_enabled_def Let_def split: option.splits)

lemma campaign_body_counters:
  "total_iterations (stats (campaign_body i w)) = total_iterations (stats w) + 1"
  "classified (stats (campaign_body i w)) = classified (stats w) + 1"
  "crashes (stats (campaign_body i w)) = crashes (stats w)"
  "hangs (stats (campaign_body i w)) = hangs (stats w)"
  by (simp_all add: campaign_body_def split_beta cond_resched_def fuzz_iteration_counters)

lemma campaign_body_frame:
  "fuzzing_enabled (campaign_body i w) = fuzzing_enabled w"
  "flag_writes (campaign_body i w) = flag_writes w"
  "flag_reads (campaign_body i w) = flag_reads w"
  "rng (campaign_body i w) = rng w"
  "smc (campaign_body i w) = smc w"
  by (simp_all add: campaign_body_def split_beta cond_resched_def fuzz_iteration_frame)

lemma campaign_body_trace:
  "\<exists>f args. trace (campaign_body i w) =
     trace w @ SmcCall f args # (if i mod 100 = 0 then [CondResched] else [])"
  using fuzz_iteration_trace[of w]
  by (auto simp: campaign_body_def split_beta cond_resched_def)

lemma campaign_loop_counters:
  "i \<le> n \<Longrightarrow>
   i \<le> fst (campaign_loop n i w) \<and> fst (campaign_loop n i w) \<le> n \<and>
   total_iterations (stats (snd (campaign_loop n i w))) =
     total_iterations (stats w) + of_nat (fst (campaign_loop n i w) - i) \<and>
   classified (stats (snd (campaign_loop n i w))) =
     classified (stats w) + of_nat (fst (campaign_loop n i w) - i) \<and>
   crashes (stats (snd (campaign_loop n i w))) = crashes (stats w) \<and>
   hangs (stats (snd (campaign_loop n i w))) = hangs (stats w)"
proof (induction n i w rule: campaign_loop.induct)
  case (1 n i w)
  show ?case
  proof (cases "i < n")
    case False
    then have "campaign_loop n i w = (i, w)" by (simp add: campaign_loop.simps [of n i w])
    with "1.prems" show ?thesis by simp
  next
    case True
    show ?thesis
    proof (cases "fst (read_fuzzing_enabled w)")
      case False
      with True have "campaign_loop n i w = (i, printk Stopped_by_user (snd (read_fuzzing_enabled w)))"
        by (simp add: campaign_loop.simps [of n i w])
      with True show ?thesis
        by (simp add: printk_def read_fuzzing_enabled_frame)
    next
      case on: True
      let ?w' = "campaign_body i (snd (read_fuzzing_enabled w))"
      have step: "campaign_loop n i w = campaign_loop n (i + 1) ?w'"
        using True on by (simp add: campaign_loop.simps [of n i w])
      have ih: "i + 1 \<le> fst (campaign_loop n (i + 1) ?w') \<and> fst (campaign_loop n (i + 1) ?w') \<le> n \<and>
        total_iterations (stats (snd (campaign_loop n (i + 1) ?w'))) =
          total_iterations (stats ?w') + of_nat (fst (campaign_loop n (i + 1) ?w') - (i + 1)) \<and>
        classified (stats (snd (campaign_loop n (i + 1) ?w'))) =
          classified (stats ?w') + of_nat (fst (campaign_loop n (i + 1) ?w') - (i + 1)) \<and>
        crashes (stats (snd (campaign_loop n (i + 1) ?w'))) = crashes (stats ?w') \<and>
        hangs (stats (snd (campaign_loop n (i + 1) ?w'))) = hangs (stats ?w')"
        using "1.IH" [OF True] on True by simp
      define k where "k = fst (campaign_loop n (i + 1) ?w')"
      have k: "i + 1 \<le> k" using ih by (simp add: k_def)
      then have split: "(of_nat (k - i) :: u64) = 1 + of_nat (k - (i + 1))"
        by (metis Suc_diff_le Suc_eq_plus1 of_nat_Suc diff_Suc_Suc)
      show ?thesis
        using ih k split
        by (simp add: step k_def [symmetric] campaign_body_counters read_fuzzing_enabled_frame)
    qed
  qed
qed

lemma campaign_loop_full:
  "i \<le> n \<Longrightarrow> fuzzing_enabled w \<Longrightarrow>
   (\<forall>j<n - i. flag_writes w (flag_reads w + j) \<noteq> Some False) \<Longrightarrow>
   fst (campaign_loop n i w) = n"
proof (induction n i w rule: campaign_loop.induct)
  case (1 n i w)
  show ?case
  proof (cases "i < n")
    case False
    then have "campaign_loop n i w = (i, w)" by (simp add: campaign_loop.simps [of n i w])
    with False "1.prems" show ?thesis by simp
  next
    case True
    let ?w' = "campaign_body i (snd (read_fuzzing_enabled w))"
    from True have "0 < n - i" by simp
    with "1.prems"(3) have "flag_writes w (flag_reads w + 0) \<noteq> Some False" by blast
    with "1.prems"(2) have on: "fst (read_fuzzing_enabled w)"
      by (auto simp: read_fuzzing_enabled_value split: option.splits)
    have step: "campaign_loop n i w = campaign_loop n (i + 1) ?w'"
      using True on by (simp add: campaign_loop.simps [of n i w])
    have en: "fuzzing_enabled ?w'"
      using on by (simp add: campaign_body_frame read_fuzzing_enabled_frame)
    have fw: "\<forall>j<n - (i + 1). flag_writes ?w' (flag_reads ?w' + j) \<noteq> Some False"
    proof (intro allI impI)
      fix j assume "j < n - (i + 1)"
      then have "j + 1 < n - i" by simp
      with "1.prems"(3) have "flag_writes w (flag_reads w + (j + 1)) \<noteq> Some False" by blast
      then show "flag_writes ?w' (flag_reads ?w' + j) \<noteq> Some False"
        by (simp add: campaign_body_frame read_fuzzing_enabled_frame add.commute add.left_commute)
    qed
    have "fst (campaign_loop n (i + 1) ?w') = n"
      using "1.IH" [OF True _ _ en fw] on True by simp
    then show ?thesis by (simp add: step)
  qed
qed

lemma campaign_loop_stop:
  "i \<le> s \<Longrightarrow> s < n \<Longrightarrow> fuzzing_enabled w \<Longrightarrow>
   (\<forall>j < s - i. flag_writes w (flag_reads w + j) \<noteq> Some False) \<Longrightarrow>
   flag_writes w (flag_reads w + (s - i)) = Some False \<Longrightarrow>
   fst (campaign_loop n i w) = s"
proof (induction n i w rule: campaign_loop.induct)
  case (1 n i w)
  from "1.prems" have lt: "i < n" by simp
  show ?case
  proof (cases "i = s")
    case True
    with "1.prems"(5) have "\<not> fst (read_fuzzing_enabled w)"
      by (simp add: read_fuzzing_enabled_value)
    with lt have "campaign_loop n i w = (i, printk Stopped_by_user (snd (read_fuzzing_enabled w)))"
      by (simp add: campaign_loop.simps [of n i w])
    with True show ?thesis by simp
  next
    case False
    with "1.prems"(1) have le: "i + 1 \<le> s" by simp
    let ?w' = "campaign_body i (snd (read_fuzzing_enabled w))"
    from le have "0 < s - i" by simp
    with "1.prems"(4) have "flag_writes w (flag_reads w + 0) \<noteq> Some False" by blast
    with "1.prems"(3) have on: "fst (read_fuzzing_enabled w)"
      by (auto simp: read_fuzzing_enabled_value split: option.splits)
    have step: "campaign_loop n i w = campaign_loop n (i + 1) ?w'"
      using lt on by (simp add: campaign_loop.simps [of n i w])
    have en: "fuzzing_enabled ?w'"
      using on by (simp add: campaign_body_frame read_fuzzing_enabled_frame)
    have fw: "\<forall>j < s - (i + 1). flag_writes ?w' (flag_reads ?w' + j) \<noteq> Some False"
    proof (intro allI impI)
      fix j assume "j < s - (i + 1)"
      then have "j + 1 < s - i" by simp
      with "1.prems"(4) have "flag_writes w (flag_reads w + (j + 1)) \<noteq> Some False" by blast
      then show "flag_writes ?w' (flag_reads ?w' + j) \<noteq> Some False"
        by (simp add: campaign_body_frame read_fuzzing_enabled_frame add.commute add.left_commute)
    qed
    have "s - i = Suc (s - (i + 1))" using le by simp
    with "1.prems"(5) have off: "flag_writes ?w' (flag_reads ?w' + (s - (i + 1))) = Some False"
      by (simp add: campaign_body_frame read_fuzzing_enabled_frame)
    have "fst (campaign_loop n (i + 1) ?w') = s"
      using "1.IH" [OF lt _ le "1.prems"(2) en fw off] on by simp
    then show ?thesis by (simp add: step)
  qed
qed

lemma smc_calls_append: "smc_calls (xs @ ys) = smc_calls xs @ smc_calls ys"
  by (induction xs rule: smc_calls.induct) simp_all

lemma yield_points_append:
  "yield_points c (xs @ ys) = yield_points c xs @ yield_points (c + length (smc_calls xs)) ys"
  by (induction c xs rule: yield_points.induct) simp_all

lemma campaign_loop_trace:
  "i \<le> n \<Longrightarrow>
   \<exists>ev. trace (snd (campaign_loop n i w)) = trace w @ ev \<and>
        length (smc_calls ev) = fst (campaign_loop n i w) - i \<and>
        yield_points (d + i) ev =
          map (\<lambda>j. d + j + 1) (filter (\<lambda>j. j mod 100 = 0) [i..<fst (campaign_loop n i w)])"
proof (induction n i w rule: campaign_loop.induct)
  case (1 n i w)
  show ?case
  proof (cases "i < n")
    case False
    then have "campaign_loop n i w = (i, w)" by (simp add: campaign_loop.simps [of n i w])
    then show ?thesis by simp
  next
    case True
    show ?thesis
    proof (cases "fst (read_fuzzing_enabled w)")
      case False
      with True have "campaign_loop n i w = (i, printk Stopped_by_user (snd (read_fuzzing_enabled w)))"
        by (simp add: campaign_loop.simps [of n i w])
      then show ?thesis by (simp add: printk_def read_fuzzing_enabled_frame)
    next
      case on: True
      let ?w' = "campaign_body i (snd (read_fuzzing_enabled w))"
      have step: "campaign_loop n i w = campaign_loop n (i + 1) ?w'"
        using True on by (simp add: campaign_loop.simps [of n i w])
      define k where "k = fst (campaign_loop n (i + 1) ?w')"
      from True have "i + 1 \<le> n" by simp
      from campaign_loop_counters [OF this, of ?w'] have ik: "i + 1 \<le> k" by (simp add: k_def)
      obtain ev where ev: "trace (snd (campaign_loop n (i + 1) ?w')) = trace ?w' @ ev"
        and calls: "length (smc_calls ev) = k - (i + 1)"
        and yp: "yield_points (d + (i + 1)) ev =
                  map (\<lambda>j. d + j + 1) (filter (\<lambda>j. j mod 100 = 0) [i + 1..<k])"
        using "1.IH" [OF True] on True unfolding k_def by auto
      obtain f args where body: "trace ?w' =
          trace w @ SmcCall f args # (if i mod 100 = 0 then [CondResched] else [])"
        using campaign_body_trace [of i "snd (read_fuzzing_enabled w)"]
        by (auto simp: read_fuzzing_enabled_frame)
      let ?ev = "SmcCall f args # (if i mod 100 = 0 then [CondResched] else []) @ ev"
      have range: "[i..<k] = i # [i + 1..<k]" using ik by (simp add: upt_rec)
      have "trace (snd (campaign_loop n i w)) = trace w @ ?ev"
        using ev body by (simp add: step)
      moreover have "length (smc_calls ?ev) = k - i" using calls ik by (auto simp: smc_calls_append)
      moreover have "yield_points (d + i) ?ev =
          map (\<lambda>j. d + j + 1) (filter (\<lambda>j. j mod 100 = 0) [i..<k])"
        using yp by (simp add: range)
      ultimately show ?thesis unfolding step k_def [symmetric] by blast
    qed
  qed
qed

lemma div_100_up: "(k + 99) div 100 = k div 100 + (if k mod 100 = 0 then 0 else 1)" for k :: nat
proof -
  have k: "k = 100 * (k div 100) + k mod 100" by simp
  have r: "k mod 100 < 100" by simp
  show ?thesis
  proof (cases "k mod 100 = 0")
    case True
    then have "k + 99 = 100 * (k div 100) + 99" using k by simp
    then have "(k + 99) div 100 = (100 * (k div 100) + 99) div 100" by simp
    also have "\<dots> = k div 100" by (simp add: div_mult_self4)
    finally show ?thesis using True by simp
  next
    case False
    then obtain r where rr: "k mod 100 = Suc r" by (cases "k mod 100") auto
    with r have r98: "r \<le> 98" by simp
    have "k + 99 = 100 * (k div 100 + 1) + r" using k rr by simp
    then have "(k + 99) div 100 = (100 * (k div 100 + 1) + r) div 100" by simp
    also have "\<dots> = k div 100 + 1" using r98 by (simp add: div_mult_self4)
    finally show ?thesis using False by simp
  qed
qed

lemma yield_count_step:
  "(Suc k + 99) div 100 = (k + 99) div 100 + (if k mod 100 = 0 then 1 else 0)"
proof -
  have "(Suc k + 99) div 100 = Suc (k div 100)" by simp
  then show ?thesis by (simp add: div_100_up)
qed

lemma yield_count: "length (filter (\<lambda>j. j mod 100 = 0) [0..<k]) = (k + 99) div 100"
proof (induction k)
  case 0 show ?case by simp
next
  case (Suc k)
  then show ?case using yield_count_step [of k] by simp
qed

subsection \<open>Whole campaigns\<close>

lemma run_fuzzing_campaign_snd:
  "snd (run_fuzzing_campaign N w) =
     printk (Campaign_complete (campaign_count N w))
       (snd (campaign_loop (unat N) 0 (printk (Starting_campaign N) w)))"
  by (simp add: run_fuzzing_campaign_def campaign_count_def split_beta)

lemma printk_frame:
  "stats (printk m w) = stats w"
  "fuzzing_enabled (printk m w) = fuzzing_enabled w"
  "flag_writes (printk m w) = flag_writes w"
  "flag_reads (printk m w) = flag_reads w"
  "rng (printk m w) = rng w"
  "rng_pos (printk m w) = rng_pos w"
  "smc (printk m w) = smc w"
  "trace (printk m w) = trace w @ [Printk m]"
  by (simp_all add: printk_def)

lemma campaign_count_le: "campaign_count N w \<le> unat N"
  using campaign_loop_counters [of 0 "unat N" "printk (Starting_campaign N) w"]
  by (simp add: campaign_count_def)

lemma run_fuzzing_campaign_counters:
  "total_iterations (stats (snd (run_fuzzing_campaign N w))) =
     total_iterations (stats w) + of_nat (campaign_count N w)"
  "classified (stats (snd (run_fuzzing_campaign N w))) =
     classified (stats w) + of_nat (campaign_count N w)"
  "crashes (stats (snd (run_fuzzing_campaign N w))) = crashes (stats w)"
  "hangs (stats (snd (run_fuzzing_campaign N w))) = hangs (stats w)"
  using campaign_loop_counters [of 0 "unat N" "printk (Starting_campaign N) w"]
  by (simp_all add: run_fuzzing_campaign_snd printk_frame campaign_count_def)

lemma campaign_count_full:
  assumes "fuzzing_enabled w"
    and "\<forall>j < unat N. flag_writes w (flag_reads w + j) \<noteq> Some False"
  shows "campaign_count N w = unat N"
  unfolding campaign_count_def
  by (rule campaign_loop_full) (use assms in \<open>simp_all add: printk_frame\<close>)

lemma campaign_count_stop:
  assumes "s < unat N" and "fuzzing_enabled w"
    and "\<forall>j < s. flag_writes w (flag_reads w + j) \<noteq> Some False"
    and "flag_writes w (flag_reads w + s) = Some False"
  shows "campaign_count N w = s"
  unfolding campaign_count_def
  by (rule campaign_loop_stop) (use assms in \<open>simp_all add: printk_frame\<close>)

lemma yield_points_length: "length (yield_points c tr) = length (filter (\<lambda>e. e = CondResched) tr)"
  by (induction c tr rule: yield_points.induct) simp_all

lemma run_fuzzing_campaign_events:
  "yield_points 0 (new_events w (snd (run_fuzzing_campaign N w))) =
     map Suc (filter (\<lambda>i. i mod 100 = 0) [0..<campaign_count N w])"
  "length (smc_calls (new_events w (snd (run_fuzzing_campaign N w)))) = campaign_count N w"
proof -
  let ?w0 = "printk (Starting_campaign N) w"
  obtain ev where ev: "trace (snd (campaign_loop (unat N) 0 ?w0)) = trace ?w0 @ ev"
    and calls: "length (smc_calls ev) = campaign_count N w"
    and yp: "yield_points 0 ev = map (\<lambda>j. j + 1) (filter (\<lambda>j. j mod 100 = 0) [0..<campaign_count N w])"
    using campaign_loop_trace [of 0 "unat N" ?w0 0] by (auto simp: campaign_count_def)
  have new: "new_events w (snd (run_fuzzing_campaign N w)) =
      Printk (Starting_campaign N) # ev @ [Printk (Campaign_complete (campaign_count N w))]"
    by (simp add: new_events_def run_fuzzing_campaign_snd printk_frame ev)
  show "yield_points 0 (new_events w (snd (run_fuzzing_campaign N w))) =
     map Suc (filter (\<lambda>i. i mod 100 = 0) [0..<campaign_count N w])"
    using yp by (simp add: new yield_points_append)
  show "length (smc_calls (new_events w (snd (run_fuzzing_campaign N w)))) = campaign_count N w"
    using calls by (simp add: new smc_calls_append)
qed

subsection \<open>The smoke test, module load and sessions\<close>

lemma new_events_append: "trace w' = trace w @ ev \<Longrightarrow> new_events w w' = ev"
  by (simp add: new_events_def)

lemma test_known_loop_frame:
  "rng_pos (test_known_loop ids w) = rng_pos w"
  "rng (test_known_loop ids w) = rng w"
  "smc (test_known_loop ids w) = smc w"
  "fuzzing_enabled (test_known_loop ids w) = fuzzing_enabled w"
  "flag_writes (test_known_loop ids w) = flag_writes w"
  "flag_reads (test_known_loop ids w) = flag_reads w"
  by (induction ids arbitrary: w; simp add: split_beta execute_smc_frame printk_frame)+

lemma test_known_loop_counters:
  "total_iterations (stats (test_known_loop ids w)) = total_iterations (stats w)"
  "crashes (stats (test_known_loop ids w)) = crashes (stats w)"
  "hangs (stats (test_known_loop ids w)) = hangs (stats w)"
  "classified (stats (test_known_loop ids w)) = classified (stats w) + of_nat (length ids)"
  by (induction ids arbitrary: w; simp add: split_beta execute_smc_counters printk_frame)+

lemma test_known_loop_calls:
  "\<exists>ev. trace (test_known_loop ids w) = trace w @ ev \<and>
        smc_calls ev = map (\<lambda>smc_id. (smc_id, [0, 0, 0, 0, 0, 0, 0])) ids"
proof (induction ids arbitrary: w)
  case Nil
  show ?case by simp
next
  case (Cons smc_id ids)
  let ?w1 = "snd (execute_smc smc_id 0 0 0 0 0 0 w)"
  let ?w2 = "printk (Smc_result smc_id (a0 (snd (fst (execute_smc smc_id 0 0 0 0 0 0 w))))) ?w1"
  obtain ev where ev: "trace (test_known_loop ids ?w2) = trace ?w2 @ ev"
    and calls: "smc_calls ev = map (\<lambda>smc_id. (smc_id, [0, 0, 0, 0, 0, 0, 0])) ids"
    using Cons.IH by blast
  have "trace (test_known_loop (smc_id # ids) w) =
      trace w @ (SmcCall smc_id [0, 0, 0, 0, 0, 0, 0] #
        Printk (Smc_result smc_id (a0 (snd (fst (execute_smc smc_id 0 0 0 0 0 0 w))))) # ev)"
    by (simp add: split_beta ev printk_frame execute_smc_frame)
  moreover have "smc_calls (SmcCall smc_id [0, 0, 0, 0, 0, 0, 0] #
        Printk (Smc_result smc_id (a0 (snd (fst (execute_smc smc_id 0 0 0 0 0 0 w))))) # ev) =
      map (\<lambda>smc_id. (smc_id, [0, 0, 0, 0, 0, 0, 0])) (smc_id # ids)"
    by (simp add: calls)
  ultimately show ?case by blast
qed

lemma test_known_smcs_calls:
  "smc_calls (new_events w (snd (test_known_smcs w))) =
     map (\<lambda>smc_id. (smc_id, [0, 0, 0, 0, 0, 0, 0])) known_smc_ids"
proof -
  obtain ev where ev: "trace (test_known_loop known_smc_ids (printk Testing_known w)) =
      trace (printk Testing_known w) @ ev"
    and calls: "smc_calls ev = map (\<lambda>smc_id. (smc_id, [0, 0, 0, 0, 0, 0, 0])) known_smc_ids"
    using test_known_loop_calls by blast
  have "trace (snd (test_known_smcs w)) = trace w @ (Printk Testing_known # ev)"
    by (simp add: test_known_smcs_def ev printk_frame)
  then have "new_events w (snd (test_known_smcs w)) = Printk Testing_known # ev"
    by (rule new_events_append)
  then show ?thesis by (simp add: calls)
qed

lemma test_known_smcs_frame:
  "rng_pos (snd (test_known_smcs w)) = rng_pos w"
  "fuzzing_enabled (snd (test_known_smcs w)) = fuzzing_enabled w"
  "flag_writes (snd (test_known_smcs w)) = flag_writes w"
  "flag_reads (snd (test_known_smcs w)) = flag_reads w"
  by (simp_all add: test_known_smcs_def test_known_loop_frame printk_frame)

lemma known_smc_ids_length: "length known_smc_ids = 6"
  by (simp add: known_smc_ids_def)

lemma test_known_smcs_counters:
  "total_iterations (stats (snd (test_known_smcs w))) = total_iterations (stats w)"
  "crashes (stats (snd (test_known_smcs w))) = crashes (stats w)"
  "hangs (stats (snd (test_known_smcs w))) = hangs (stats w)"
  "classified (stats (snd (test_known_smcs w))) = classified (stats w) + 6"
  by (simp_all add: test_known_smcs_def test_known_loop_counters printk_frame known_smc_ids_length)

lemma smc_fuzzer_init_loaded:
  "smc_fuzzer_init True w =
     (0, snd (test_known_smcs (printk Interface_available (printk Module_loaded (printk Initializing w)))))"
  by (simp add: smc_fuzzer_init_def split_beta)

lemma pending_tests_step: "pending_tests k (c # cs) = pending_tests (pending_tests k [c]) cs"
  by (cases c) simp_all

lemma pending_tests_no_test: "Test \<notin> set cs \<Longrightarrow> pending_tests 0 cs = 0"
proof (induction cs)
  case Nil show ?case by simp
next
  case (Cons c cs)
  then show ?case by (cases c) simp_all
qed

lemma classified_zero: "classified zero_stats = 0" "total_iterations zero_stats = 0"
  "crashes zero_stats = 0" "hangs zero_stats = 0"
  by (simp_all add: classified_def zero_stats_def)

lemma run_command_surplus:
  assumes "classified (stats w) = total_iterations (stats w) + 6 * of_nat k"
  shows "classified (stats (run_command c w)) =
     total_iterations (stats (run_command c w)) + 6 * of_nat (pending_tests k [c])"
proof (cases c)
  case (Fuzz N)
  then show ?thesis using assms by (simp add: run_fuzzing_campaign_counters)
next
  case Test
  then show ?thesis using assms by (simp add: test_known_smcs_counters algebra_simps)
next
  case Enable
  then show ?thesis using assms by (simp add: printk_frame)
next
  case Disable
  then show ?thesis using assms by (simp add: printk_frame)
next
  case Reset
  then show ?thesis by (simp add: printk_frame classified_zero)
qed

lemma run_commands_surplus:
  "classified (stats w) = total_iterations (stats w) + 6 * of_nat k \<Longrightarrow>
   classified (stats (run_commands cs w)) =
     total_iterations (stats (run_commands cs w)) + 6 * of_nat (pending_tests k cs)"
proof (induction cs arbitrary: w k)
  case Nil
  then show ?case by simp
next
  case (Cons c cs)
  have "classified (stats (run_command c w)) =
      total_iterations (stats (run_command c w)) + 6 * of_nat (pending_tests k [c])"
    using Cons.prems by (rule run_command_surplus)
  from Cons.IH [OF this] show ?case
    by (simp add: pending_tests_step [of k c cs])
qed

lemma run_command_crashes_hangs:
  "crashes (stats w) = 0 \<and> hangs (stats w) = 0 \<Longrightarrow>
   crashes (stats (run_command c w)) = 0 \<and> hangs (stats (run_command c w)) = 0"
  by (cases c)
     (simp_all add: run_fuzzing_campaign_counters test_known_smcs_counters printk_frame classified_zero)

lemma run_commands_crashes_hangs:
  "crashes (stats w) = 0 \<and> hangs (stats w) = 0 \<Longrightarrow>
   crashes (stats (run_commands cs w)) = 0 \<and> hangs (stats (run_commands cs w)) = 0"
proof (induction cs arbitrary: w)
  case Nil
  then show ?case by simp
next
  case (Cons c cs)
  from Cons.prems have "crashes (stats (run_command c w)) = 0 \<and> hangs (stats (run_command c w)) = 0"
    by (rule run_command_crashes_hangs)
  then show ?case using Cons.IH by simp
qed

lemma smc_fuzzer_init_stats:
  "crashes (stats (snd (smc_fuzzer_init ok w))) = crashes (stats w)"
  "hangs (stats (snd (smc_fuzzer_init ok w))) = hangs (stats w)"
  "total_iterations (stats (snd (smc_fuzzer_init ok w))) = total_iterations (stats w)"
  "classified (stats (snd (smc_fuzzer_init ok w))) = classified (stats w) + (if ok then 6 else 0)"
  by (simp_all add: smc_fuzzer_init_def split_beta Let_def test_known_smcs_counters printk_frame)

lemma insmod_state_stats: "stats (insmod_state e m p) = zero_stats"
  by (simp add: insmod_state_def)

subsection \<open>The identifier generator\<close>

lemma picks_known_odd: "picks_known r = odd r"
  by (simp add: picks_known_def even_iff_mod_2_eq_zero)

lemma picks_known_half: "card {r. picks_known r} = 2 ^ 31"
proof -
  have bij: "bij_betw (\<lambda>r :: u32. r + 1) {r. odd r} {r. even r}"
    by (rule bij_betw_byWitness [where f' = "\<lambda>r. r - 1"]) auto
  then have eq: "card {r :: u32. odd r} = card {r :: u32. even r}"
    by (rule bij_betw_same_card)
  have "(UNIV :: u32 set) = {r. odd r} \<union> {r. even r}" by auto
  moreover have "{r :: u32. odd r} \<inter> {r. even r} = {}" by auto
  ultimately have "card (UNIV :: u32 set) = card {r :: u32. odd r} + card {r :: u32. even r}"
    by (metis card_Un_disjoint finite_code)
  with eq have "2 * card {r :: u32. odd r} = 2 ^ 32" by (simp add: card_word)
  then show ?thesis by (simp add: picks_known_odd)
qed

lemma synthesized_range:
  "0xb2000000 \<le> (0xb2000000 OR (r AND 0x00ffffff) :: u32)"
  "(0xb2000000 OR (r AND 0x00ffffff) :: u32) \<le> 0xb2ffffff"
proof -
  show "0xb2000000 \<le> (0xb2000000 OR (r AND 0x00ffffff) :: u32)"
    by (rule le_word_or2)
  define y where "y = r AND 0x00ffffff"
  have "y \<le> 0x00ffffff" unfolding y_def by (rule word_and_le1)
  then have y: "unat y \<le> 16777215" by (simp add: word_le_nat_alt)
  have "y AND 0xb2000000 = 0" unfolding y_def by (simp add: and.assoc)
  then have "0xb2000000 AND y = 0" by (simp add: and.commute)
  then have "0xb2000000 OR y = 0xb2000000 + y"
    using word_plus_and_or [of "0xb2000000" y] by simp
  moreover have "unat (0xb2000000 + y) = (2986344448 + unat y) mod 2 ^ 32"
    by (simp add: unat_word_ariths)
  then have "unat (0xb2000000 + y) = 2986344448 + unat y" using y by simp
  then have "0xb2000000 + y \<le> 0xb2ffffff" using y by (simp add: word_le_nat_alt)
  ultimately show "(0xb2000000 OR (r AND 0x00ffffff) :: u32) \<le> 0xb2ffffff"
    by (simp add: y_def)
qed

lemma known_smc_ids_range:
  "x \<in> set known_smc_ids \<Longrightarrow> 0xb2000000 \<le> x \<and> x \<le> 0xb2ffffff"
  by (auto simp: known_smc_ids_def)

lemma generate_random_smc_id_True:
  "generate_random_smc_id True w =
     (if picks_known (ucast (rng w (rng_pos w)))
      then known_smc_ids ! (unat (ucast (rng w (rng_pos w + 1)) :: u32) mod length known_smc_ids)
      else 0xb2000000 OR (ucast (rng w (rng_pos w + 1)) AND 0x00ffffff),
      w\<lparr>rng_pos := rng_pos w + 2\<rparr>)"
  by (simp add: generate_random_smc_id_def get_random_u32_def Let_def)

lemma generate_random_smc_id_False:
  "generate_random_smc_id False w =
     (0xb2000000 OR (ucast (rng w (rng_pos w)) AND 0x00ffffff), w\<lparr>rng_pos := rng_pos w + 1\<rparr>)"
  by (simp add: generate_random_smc_id_def get_random_u32_def Let_def)

lemma corpus_index: "n mod length known_smc_ids < length known_smc_ids"
  by (simp add: known_smc_ids_length)

lemma generate_random_smc_id_range:
  "0xb2000000 \<le> fst (generate_random_smc_id use_known w) \<and>
   fst (generate_random_smc_id use_known w) \<le> 0xb2ffffff"
proof (cases use_known)
  case False
  then show ?thesis by (simp add: generate_random_smc_id_False synthesized_range)
next
  case True
  show ?thesis
  proof (cases "picks_known (ucast (rng w (rng_pos w)))")
    case k: True
    have "known_smc_ids ! (unat (ucast (rng w (rng_pos w + 1)) :: u32) mod length known_smc_ids)
        \<in> set known_smc_ids"
      by (rule nth_mem) (rule corpus_index)
    then show ?thesis using True k
      by (simp add: generate_random_smc_id_True known_smc_ids_range)
  next
    case k: False
    then show ?thesis using True by (simp add: generate_random_smc_id_True synthesized_range)
  qed
qed

subsection \<open>The parameter generator\<close>

lemma mod_10_eq: "(r mod 10 = c) = (unat r mod 10 = unat c)" for r c :: u32
  by (simp add: word_unat_eq_iff unat_mod)

lemma mod_10_cases:
  "n mod 10 = 0 \<or> n mod 10 = 1 \<or> n mod 10 = 2 \<or> n mod 10 = 3 \<or> n mod 10 = 4 \<or>
   n mod 10 = 5 \<or> n mod 10 = 6 \<or> n mod 10 = 7 \<or> n mod 10 = 8 \<or> n mod 10 = (9 :: nat)"
  by arith

lemma generate_random_param_pattern:
  "generate_random_param w =
     (pattern_value (pattern_of (ucast (rng w (rng_pos w)))) (rng w (rng_pos w + 1)),
      w\<lparr>rng_pos := rng_pos w + 1 + pattern_draws (pattern_of (ucast (rng w (rng_pos w))))\<rparr>)"
proof -
  define r :: u32 where "r = ucast (rng w (rng_pos w))"
  from mod_10_cases [of "unat r"] show ?thesis
    unfolding r_def [symmetric]
    by (elim disjE)
       (simp_all add: generate_random_param_def get_random_u32_def get_random_u64_def Let_def
          mod_10_eq pattern_of_def pattern_set_def r_def [symmetric])
qed

lemma generate_random_param_draws:
  "rng_pos w < rng_pos (snd (generate_random_param w))"
  "rng_pos (snd (generate_random_param w)) \<le> rng_pos w + 2"
proof -
  have "pattern_draws p \<le> 1" for p by (cases p) simp_all
  then show "rng_pos w < rng_pos (snd (generate_random_param w))"
    "rng_pos (snd (generate_random_param w)) \<le> rng_pos w + 2"
    by (simp_all add: generate_random_param_pattern)
qed

lemma generate_params_step:
  "generate_params (Suc k) w =
     (fst (generate_random_param w) # fst (generate_params k (snd (generate_random_param w))),
      snd (generate_params k (snd (generate_random_param w))))"
  by (simp add: split_beta)

lemma generate_params_Suc:
  "generate_params (Suc k) w =
     (fst (generate_params k w) @ [fst (generate_random_param (snd (generate_params k w)))],
      snd (generate_random_param (snd (generate_params k w))))"
proof (induction k arbitrary: w)
  case 0
  show ?case by (simp add: split_beta)
next
  case (Suc k)
  let ?p = "fst (generate_random_param w)"
  let ?w1 = "snd (generate_random_param w)"
  have "generate_params (Suc (Suc k)) w =
      (?p # fst (generate_params (Suc k) ?w1), snd (generate_params (Suc k) ?w1))"
    by (rule generate_params_step)
  also have "\<dots> =
      (?p # (fst (generate_params k ?w1) @ [fst (generate_random_param (snd (generate_params k ?w1)))]),
       snd (generate_random_param (snd (generate_params k ?w1))))"
    by (simp only: Suc.IH fst_conv snd_conv)
  also have "\<dots> =
      (fst (generate_params (Suc k) w) @
         [fst (generate_random_param (snd (generate_params (Suc k) w)))],
       snd (generate_random_param (snd (generate_params (Suc k) w))))"
    by (simp only: generate_params_step [of k w] fst_conv snd_conv append_Cons)
  finally show ?case .
qed

lemma generate_params_nth:
  "i < n \<Longrightarrow>
   fst (generate_params n w) ! i = fst (generate_random_param (snd (generate_params i w)))"
proof (induction n)
  case 0
  then show ?case by simp
next
  case (Suc n)
  have snoc: "fst (generate_params (Suc n) w) =
      fst (generate_params n w) @ [fst (generate_random_param (snd (generate_params n w)))]"
    by (simp only: generate_params_Suc [of n w] fst_conv)
  show ?case
  proof (cases "i = n")
    case True
    then show ?thesis
      by (simp only: snoc nth_append generate_params_length) simp
  next
    case False
    with Suc.prems have "i < n" by simp
    with Suc.IH show ?thesis
      by (simp only: snoc nth_append generate_params_length) simp
  qed
qed

lemma generate_params_draws:
  "rng_pos (snd (generate_params i w)) < rng_pos (snd (generate_params (Suc i) w))"
  by (simp only: generate_params_Suc [of i w] snd_conv generate_random_param_draws)

lemma unat_ucast_32_64: "unat (ucast (v :: u32) :: u64) = unat v"
proof -
  have "unat v < 2 ^ 32" using unsigned_less [of v] by simp
  then have "unat v < 2 ^ 64" by simp
  then show ?thesis by (simp add: unsigned_ucast_eq take_bit_nat_eq_self)
qed

lemma six_nth: "length xs = 6 \<Longrightarrow> [xs ! 0, xs ! 1, xs ! 2, xs ! 3, xs ! 4, xs ! 5] = xs"
  by (rule nth_equalityI) (auto simp: eval_nat_numeral less_Suc_eq)

lemma near_page_bounds:
  "0x1000 \<le> (ucast (0x1000 + ((v :: u32) AND 0xFFF)) :: u64)"
  "(ucast (0x1000 + ((v :: u32) AND 0xFFF)) :: u64) \<le> 0x1FFF"
proof -
  have "v AND 0xFFF \<le> 0xFFF" by (rule word_and_le1)
  then have y: "unat (v AND 0xFFF) \<le> 4095" by (simp add: word_le_nat_alt)
  have "unat (0x1000 + (v AND 0xFFF)) = (4096 + unat (v AND 0xFFF)) mod 2 ^ 32"
    by (simp add: unat_word_ariths)
  with y have u: "unat (0x1000 + (v AND 0xFFF)) = 4096 + unat (v AND 0xFFF)" by simp
  show "0x1000 \<le> (ucast (0x1000 + ((v :: u32) AND 0xFFF)) :: u64)"
    by (simp add: word_le_nat_alt unat_ucast_32_64 u)
  show "(ucast (0x1000 + ((v :: u32) AND 0xFFF)) :: u64) \<le> 0x1FFF"
    using y by (simp add: word_le_nat_alt unat_ucast_32_64 u)
qed

lemma random_32_bound: "(ucast (v :: u32) :: u64) \<le> 0xFFFFFFFF"
proof -
  have "unat v < 2 ^ 32" using unsigned_less [of v] by simp
  then show ?thesis by (simp add: word_le_nat_alt unat_ucast_32_64)
qed


lemma fuzz_iteration_event:
  "new_events w (snd (fuzz_iteration w)) =
     [SmcCall
        (fst (generate_random_smc_id True
           (w\<lparr>stats := (stats w)\<lparr>total_iterations := total_iterations (stats w) + 1\<rparr>\<rparr>)))
        (fst (generate_params 6 (snd (generate_random_smc_id True
           (w\<lparr>stats := (stats w)\<lparr>total_iterations := total_iterations (stats w) + 1\<rparr>\<rparr>)))) @ [0])]"
proof -
  define w0 where "w0 = w\<lparr>stats := (stats w)\<lparr>total_iterations := total_iterations (stats w) + 1\<rparr>\<rparr>"
  define w1 where "w1 = snd (generate_random_smc_id True w0)"
  define ps where "ps = fst (generate_params 6 w1)"
  define w2 where "w2 = snd (generate_params 6 w1)"
  have "only_draws w0 w1" unfolding w1_def by (rule generate_random_smc_id_only)
  moreover have "only_draws w1 w2" unfolding w2_def by (rule generate_params_only)
  ultimately have "only_draws w0 w2" by (rule only_draws_trans)
  then have tr: "trace w2 = trace w" using only_draws_fields(7) [of w0 w2] by (simp add: w0_def)
  have len: "length ps = 6" unfolding ps_def by (rule generate_params_length)
  have "snd (fuzz_iteration w) =
      snd (execute_smc (fst (generate_random_smc_id True w0))
        (ps ! 0) (ps ! 1) (ps ! 2) (ps ! 3) (ps ! 4) (ps ! 5) w2)"
    by (simp add: fuzz_iteration_def split_beta Let_def w0_def w1_def w2_def ps_def)
  then have "trace (snd (fuzz_iteration w)) =
      trace w @ [SmcCall (fst (generate_random_smc_id True w0))
        ([ps ! 0, ps ! 1, ps ! 2, ps ! 3, ps ! 4, ps ! 5] @ [0])]"
    by (simp add: execute_smc_frame tr)
  then have "trace (snd (fuzz_iteration w)) =
      trace w @ [SmcCall (fst (generate_random_smc_id True w0)) (ps @ [0])]"
    by (simp only: six_nth [OF len])
  then show ?thesis
    unfolding w0_def [symmetric] ps_def w1_def by (rule new_events_append)
qed

subsection \<open>The control file\<close>




lemma loaded_quiet_stats:
  "stats loaded_quiet = zero_stats\<lparr>valid_responses := 6, last_smc_id := 0xb200000b\<rparr>"
  "fuzzing_enabled loaded_quiet"
  by (simp_all add: loaded_quiet_def smc_fuzzer_init_def test_known_smcs_def known_smc_ids_def
      execute_smc_def arm_smccc_smc_def printk_def quiet_world_def insmod_state_def zero_res_def
      zero_stats_def Let_def)

lemma status_args_reset:
  "status_args (run_command Reset w) =
     [(''Fuzzing Enabled'', Fmt_s (if fuzzing_enabled w then ''yes'' else ''no'')),
      (''Total Iterations'', Fmt_llu 0), (''Crashes'', Fmt_llu 0), (''Hangs'', Fmt_llu 0),
      (''Interesting Cases'', Fmt_llu 0), (''Valid Responses'', Fmt_llu 0),
      (''Error Responses'', Fmt_llu 0), (''Last SMC ID'', Fmt_08x 0), (''Last Result'', Fmt_llx 0)]"
  by (simp add: status_args_def printk_def zero_stats_def)

section \<open>The claims\<close>

subsection \<open>C1: the total and the outcome counters\<close>

text \<open>
  C1, as the code has it. Campaigns, \<open>enable\<close>, \<open>disable\<close> and \<open>reset\<close> keep
  \<open>total_iterations = valid_responses + error_responses + interesting_cases\<close> (modulo
  \<open>2 ^ 64\<close>); the counters of crashes and hangs take no part. Each run of
  \<^verbatim>\<open>test_known_smcs\<close>, the one at module load included, classifies six calls and leaves
  \<open>total_iterations\<close> alone: the three outcome counters together exceed the total by six
  for every such run since the last reset.
\<close>

theorem stats_consistency:
  "(classified (stats w) = total_iterations (stats w) + 6 * of_nat k \<longrightarrow>
      classified (stats (run_commands cs w)) =
        total_iterations (stats (run_commands cs w)) + 6 * of_nat (pending_tests k cs)) \<and>
   (Test \<notin> set cs \<and> classified (stats w) = total_iterations (stats w) \<longrightarrow>
      classified (stats (run_commands cs w)) = total_iterations (stats (run_commands cs w))) \<and>
   classified (stats (run_commands cs (snd (smc_fuzzer_init True (insmod_state e m p))))) =
     total_iterations (stats (run_commands cs (snd (smc_fuzzer_init True (insmod_state e m p))))) +
     6 * of_nat (pending_tests 1 cs)"
proof (intro conjI impI)
  assume "classified (stats w) = total_iterations (stats w) + 6 * of_nat k"
  then show "classified (stats (run_commands cs w)) =
      total_iterations (stats (run_commands cs w)) + 6 * of_nat (pending_tests k cs)"
    by (rule run_commands_surplus)
next
  assume a: "Test \<notin> set cs \<and> classified (stats w) = total_iterations (stats w)"
  then have "classified (stats w) = total_iterations (stats w) + 6 * of_nat 0" by simp
  from run_commands_surplus [OF this, of cs] a
  show "classified (stats (run_commands cs w)) = total_iterations (stats (run_commands cs w))"
    by (simp add: pending_tests_no_test)
next
  let ?w = "snd (smc_fuzzer_init True (insmod_state e m p))"
  have "classified (stats ?w) = total_iterations (stats ?w) + 6 * of_nat 1"
    by (simp add: smc_fuzzer_init_stats insmod_state_stats classified_zero)
  then show "classified (stats (run_commands cs ?w)) =
      total_iterations (stats (run_commands cs ?w)) + 6 * of_nat (pending_tests 1 cs)"
    by (rule run_commands_surplus)
qed

text \<open>
  From zeroed statistics, a session without \<open>test\<close> ends with the total equal to the
  three counters together; a session with one \<open>test\<close> ends six above.
\<close>

theorem stats_consistency_witness:
  "classified (stats (run_commands [Fuzz 250, Enable, Reset, Fuzz 3, Disable] quiet_world)) =
     total_iterations (stats (run_commands [Fuzz 250, Enable, Reset, Fuzz 3, Disable] quiet_world)) \<and>
   classified (stats (run_commands [Fuzz 250, Test, Fuzz 3] quiet_world)) =
     total_iterations (stats (run_commands [Fuzz 250, Test, Fuzz 3] quiet_world)) + 6"
proof -
  have q: "classified (stats quiet_world) = total_iterations (stats quiet_world)"
    by (simp add: quiet_world_def insmod_state_def classified_zero)
  have t: "Test \<notin> set [Fuzz 250, Enable, Reset, Fuzz 3, Disable]" by simp
  have p: "pending_tests 0 [Fuzz 250, Test, Fuzz 3] = 1" by simp
  show ?thesis
    using stats_consistency [of quiet_world 0 "[Fuzz 250, Enable, Reset, Fuzz 3, Disable]"]
      stats_consistency [of quiet_world 0 "[Fuzz 250, Test, Fuzz 3]"] q t p
    by simp
qed

text \<open>
  Right after module load the monitor has been called six times and each call has been
  classified, while \<open>total_iterations\<close> is still 0.
\<close>

theorem module_load_breaks_total:
  "total_iterations (stats (snd (smc_fuzzer_init True quiet_world))) = 0 \<and>
   valid_responses (stats (snd (smc_fuzzer_init True quiet_world))) +
   error_responses (stats (snd (smc_fuzzer_init True quiet_world))) +
   interesting_cases (stats (snd (smc_fuzzer_init True quiet_world))) = 6"
proof -
  have "classified (stats (snd (smc_fuzzer_init True quiet_world))) = 6"
    by (simp add: smc_fuzzer_init_stats quiet_world_def insmod_state_stats classified_zero)
  moreover have "total_iterations (stats (snd (smc_fuzzer_init True quiet_world))) = 0"
    by (simp add: smc_fuzzer_init_stats quiet_world_def insmod_state_stats classified_zero)
  ultimately show ?thesis by (simp add: classified_def)
qed


subsection \<open>C2: the classifier\<close>

text \<open>
  C2. For every result of a call, \<^verbatim>\<open>execute_smc\<close> counts exactly one outcome: a primary
  word of 0 increments \<open>valid_responses\<close>, a primary word that is negative as a signed
  number increments \<open>error_responses\<close>, any other value increments
  \<open>interesting_cases\<close>; nothing else is counted, and the last identifier and the last
  result are stored on every call, whatever the outcome.
\<close>

theorem execute_smc_classifies:
  "snd (execute_smc func_id arg1 arg2 arg3 arg4 arg5 arg6 w) =
     (let r = a0 (smc w (trace w) func_id [arg1, arg2, arg3, arg4, arg5, arg6, 0]);
          st = (stats w)\<lparr>last_smc_id := func_id, last_result := r\<rparr>
      in w\<lparr>trace := trace w @ [SmcCall func_id [arg1, arg2, arg3, arg4, arg5, arg6, 0]],
           stats :=
             (if r = 0 then st\<lparr>valid_responses := valid_responses (stats w) + 1\<rparr>
              else if sint r < 0 then st\<lparr>error_responses := error_responses (stats w) + 1\<rparr>
              else st\<lparr>interesting_cases := interesting_cases (stats w) + 1\<rparr>)\<rparr>)"
  by (simp add: execute_smc_def arm_smccc_smc_def Let_def)

subsection \<open>C3: the length of a campaign\<close>

text \<open>
  C3. While the flag stays set (it is set at the start and no write of the operator's
  clears it before one of the \<open>N\<close> checks), \<open>run(N)\<close> adds exactly \<open>N\<close> to
  \<open>total_iterations\<close>. In every case the campaign adds the index it stopped at, which it
  logs and which is at most \<open>N\<close>. When a clearing write lands just before the check of
  index \<open>s\<close>, that is after \<open>s\<close> iterations, and none landed before, the campaign stops
  there: \<open>total_iterations\<close> has grown by \<open>s\<close>, the iterations already classified
  included. The counter is 64 bits wide and the additions are modulo \<open>2 ^ 64\<close>.
\<close>

theorem run_fuzzing_campaign_total:
  "(fuzzing_enabled w \<and> (\<forall>j < unat N. flag_writes w (flag_reads w + j) \<noteq> Some False) \<longrightarrow>
      total_iterations (stats (snd (run_fuzzing_campaign N w))) =
        total_iterations (stats w) + of_nat (unat N)) \<and>
   (campaign_count N w \<le> unat N \<and>
    total_iterations (stats (snd (run_fuzzing_campaign N w))) =
      total_iterations (stats w) + of_nat (campaign_count N w) \<and>
    last (trace (snd (run_fuzzing_campaign N w))) = Printk (Campaign_complete (campaign_count N w))) \<and>
   (s < unat N \<and> fuzzing_enabled w \<and>
    (\<forall>j < s. flag_writes w (flag_reads w + j) \<noteq> Some False) \<and>
    flag_writes w (flag_reads w + s) = Some False \<longrightarrow>
      campaign_count N w = s \<and>
      total_iterations (stats (snd (run_fuzzing_campaign N w))) =
        total_iterations (stats w) + of_nat s)"
proof (intro conjI impI)
  assume "fuzzing_enabled w \<and> (\<forall>j < unat N. flag_writes w (flag_reads w + j) \<noteq> Some False)"
  then have "campaign_count N w = unat N" by (simp add: campaign_count_full)
  then show "total_iterations (stats (snd (run_fuzzing_campaign N w))) =
      total_iterations (stats w) + of_nat (unat N)"
    by (simp add: run_fuzzing_campaign_counters)
next
  show "campaign_count N w \<le> unat N" by (rule campaign_count_le)
next
  show "total_iterations (stats (snd (run_fuzzing_campaign N w))) =
      total_iterations (stats w) + of_nat (campaign_count N w)"
    by (rule run_fuzzing_campaign_counters)
next
  show "last (trace (snd (run_fuzzing_campaign N w))) = Printk (Campaign_complete (campaign_count N w))"
    by (simp add: run_fuzzing_campaign_snd printk_frame)
next
  assume a: "s < unat N \<and> fuzzing_enabled w \<and>
    (\<forall>j < s. flag_writes w (flag_reads w + j) \<noteq> Some False) \<and>
    flag_writes w (flag_reads w + s) = Some False"
  then show c: "campaign_count N w = s" by (simp add: campaign_count_stop)
  then show "total_iterations (stats (snd (run_fuzzing_campaign N w))) =
      total_iterations (stats w) + of_nat s"
    by (simp add: run_fuzzing_campaign_counters)
qed

text \<open>
  A campaign of 250 under a flag that stays set counts 250; a campaign of 1000 whose
  flag is cleared after iteration 37 counts 37.
\<close>

theorem run_fuzzing_campaign_total_witness:
  "total_iterations (stats (snd (run_fuzzing_campaign 250 quiet_world))) = 250 \<and>
   campaign_count 1000 disable_after_37 = 37 \<and>
   total_iterations (stats (snd (run_fuzzing_campaign 1000 disable_after_37))) = 37"
proof -
  have q: "fuzzing_enabled quiet_world \<and>
      (\<forall>j < unat (250 :: u32). flag_writes quiet_world (flag_reads quiet_world + j) \<noteq> Some False)"
    by (simp add: quiet_world_def insmod_state_def)
  have d: "37 < unat (1000 :: u32) \<and> fuzzing_enabled disable_after_37 \<and>
      (\<forall>j < 37. flag_writes disable_after_37 (flag_reads disable_after_37 + j) \<noteq> Some False) \<and>
      flag_writes disable_after_37 (flag_reads disable_after_37 + 37) = Some False"
    by (simp add: disable_after_37_def insmod_state_def)
  have t0: "total_iterations (stats quiet_world) = 0" "total_iterations (stats disable_after_37) = 0"
    by (simp_all add: quiet_world_def disable_after_37_def insmod_state_def zero_stats_def)
  show ?thesis
    using run_fuzzing_campaign_total [of quiet_world 250 0] q
      run_fuzzing_campaign_total [of disable_after_37 1000 37] d t0
    by simp
qed

subsection \<open>C4: the yield to the scheduler\<close>

text \<open>
  C4, as the code has it. The loop calls \<^verbatim>\<open>cond_resched()\<close> right after the iteration
  of every loop index \<open>i\<close> with \<open>i mod 100 = 0\<close>, whatever the outcomes of the calls:
  after the 1st, the 101st, the 201st iteration and so on, each iteration making one
  SMC. A campaign that stops at index \<open>k\<close> yields \<open>(k + 99) div 100\<close> times, and \<open>k\<close>
  is \<open>N\<close> while the flag stays set.
\<close>

theorem run_fuzzing_campaign_yields:
  "yield_points 0 (new_events w (snd (run_fuzzing_campaign N w))) =
     map Suc (filter (\<lambda>i. i mod 100 = 0) [0..<campaign_count N w]) \<and>
   length (yield_points 0 (new_events w (snd (run_fuzzing_campaign N w)))) =
     (campaign_count N w + 99) div 100 \<and>
   length (smc_calls (new_events w (snd (run_fuzzing_campaign N w)))) = campaign_count N w \<and>
   (fuzzing_enabled w \<and> (\<forall>j < unat N. flag_writes w (flag_reads w + j) \<noteq> Some False) \<longrightarrow>
      campaign_count N w = unat N)"
  by (simp add: run_fuzzing_campaign_events yield_count campaign_count_full)

text \<open>A campaign of 101 iterations yields twice: after the 1st and after the 101st.\<close>

theorem run_fuzzing_campaign_yields_witness:
  "yield_points 0 (new_events quiet_world (snd (run_fuzzing_campaign 101 quiet_world))) = [1, 101] \<and>
   length (smc_calls (new_events quiet_world (snd (run_fuzzing_campaign 101 quiet_world)))) = 101"
proof -
  have q: "fuzzing_enabled quiet_world \<and>
      (\<forall>j < unat (101 :: u32). flag_writes quiet_world (flag_reads quiet_world + j) \<noteq> Some False)"
    by (simp add: quiet_world_def insmod_state_def)
  have f: "map Suc (filter (\<lambda>i. i mod 100 = 0) [0..<101]) = [1, 101]"
    by code_simp
  show ?thesis
    using run_fuzzing_campaign_yields [of quiet_world 101] q f by simp
qed

text \<open>
  With a monitor that always answers 0, \<open>run(250)\<close> reaches the yield point three
  times, not twice: at the loop indices 0, 100 and 200.
\<close>

theorem run_250_yields_three_times:
  "length (filter (\<lambda>e. e = CondResched) (trace (snd (run_fuzzing_campaign 250 quiet_world)))) = 3 \<and>
   yield_points 0 (trace (snd (run_fuzzing_campaign 250 quiet_world))) = [1, 101, 201]"
proof -
  have q: "campaign_count 250 quiet_world = 250"
    by (rule campaign_count_full [of quiet_world 250, simplified])
       (simp_all add: quiet_world_def insmod_state_def)
  have f: "map Suc (filter (\<lambda>i. i mod 100 = 0) [0..<250]) = [1, 101, 201]"
    by code_simp
  have n: "new_events quiet_world (snd (run_fuzzing_campaign 250 quiet_world)) =
      trace (snd (run_fuzzing_campaign 250 quiet_world))"
    by (simp add: new_events_def quiet_world_def insmod_state_def)
  have y: "yield_points 0 (trace (snd (run_fuzzing_campaign 250 quiet_world))) = [1, 101, 201]"
    using run_fuzzing_campaign_events(1) [of quiet_world 250] by (simp add: q f n)
  have "length (filter (\<lambda>e. e = CondResched) (trace (snd (run_fuzzing_campaign 250 quiet_world)))) =
      length (yield_points 0 (trace (snd (run_fuzzing_campaign 250 quiet_world))))"
    by (simp add: yield_points_length)
  with y show ?thesis by simp
qed

subsection \<open>C5: the smoke test\<close>

text \<open>
  C5. \<^verbatim>\<open>test_known_smcs\<close> calls the monitor once for each entry of the seed corpus, in
  the order of the corpus, with zero in every argument register, and draws no random
  number; the corpus has six distinct entries. A successful \<^verbatim>\<open>smc_fuzzer_init\<close> runs it
  once: these six calls are the only ones of module load.
\<close>

theorem test_known_smcs_corpus_once:
  "smc_calls (new_events w (snd (test_known_smcs w))) =
     map (\<lambda>smc_id. (smc_id, [0, 0, 0, 0, 0, 0, 0])) known_smc_ids \<and>
   rng_pos (snd (test_known_smcs w)) = rng_pos w \<and>
   distinct known_smc_ids \<and> length known_smc_ids = 6 \<and>
   fst (smc_fuzzer_init True w) = 0 \<and>
   smc_calls (new_events w (snd (smc_fuzzer_init True w))) =
     map (\<lambda>smc_id. (smc_id, [0, 0, 0, 0, 0, 0, 0])) known_smc_ids \<and>
   rng_pos (snd (smc_fuzzer_init True w)) = rng_pos w"
proof -
  let ?w3 = "printk Interface_available (printk Module_loaded (printk Initializing w))"
  have tr: "trace ?w3 = trace w @ [Printk Initializing, Printk Module_loaded, Printk Interface_available]"
    by (simp add: printk_frame)
  have init: "new_events w (snd (smc_fuzzer_init True w)) =
      [Printk Initializing, Printk Module_loaded, Printk Interface_available] @
      new_events ?w3 (snd (test_known_smcs ?w3))"
  proof -
    obtain ev where ev: "trace (test_known_loop known_smc_ids (printk Testing_known ?w3)) =
        trace (printk Testing_known ?w3) @ ev"
      using test_known_loop_calls by blast
    have a: "trace (snd (test_known_smcs ?w3)) = trace ?w3 @ (Printk Testing_known # ev)"
      by (simp add: test_known_smcs_def ev printk_frame)
    then have b: "new_events ?w3 (snd (test_known_smcs ?w3)) = Printk Testing_known # ev"
      by (rule new_events_append)
    have "trace (snd (smc_fuzzer_init True w)) =
        trace w @ ([Printk Initializing, Printk Module_loaded, Printk Interface_available] @
          (Printk Testing_known # ev))"
      using a by (simp add: smc_fuzzer_init_loaded tr)
    then have "new_events w (snd (smc_fuzzer_init True w)) =
        [Printk Initializing, Printk Module_loaded, Printk Interface_available] @
          (Printk Testing_known # ev)"
      by (rule new_events_append)
    with b show ?thesis by simp
  qed
  have "smc_calls (new_events w (snd (smc_fuzzer_init True w))) =
      map (\<lambda>smc_id. (smc_id, [0, 0, 0, 0, 0, 0, 0])) known_smc_ids"
    by (simp add: init test_known_smcs_calls)
  moreover have "distinct known_smc_ids" "length known_smc_ids = 6"
    by (simp_all add: known_smc_ids_def)
  moreover have "rng_pos (snd (smc_fuzzer_init True w)) = rng_pos w"
    by (simp add: smc_fuzzer_init_loaded test_known_smcs_frame printk_frame)
  ultimately show ?thesis
    by (simp add: test_known_smcs_calls test_known_smcs_frame smc_fuzzer_init_loaded)
qed

subsection \<open>C6: the identifier generator\<close>

text \<open>
  C6. Called with \<open>use_known\<close> set, the generator makes two draws. The first selects
  the seed corpus when it is odd, which holds for exactly half of the \<open>2 ^ 32\<close> values
  of a draw; the second then indexes the corpus, always within its bounds. Otherwise
  the identifier is the prefix \<open>0xb2000000\<close> OR-ed with the low 24 bits of the second
  draw. Whatever \<open>use_known\<close> is, the function returns, and the identifier lies between
  \<open>0xb2000000\<close> and \<open>0xb2ffffff\<close>.
\<close>

theorem generate_random_smc_id_total:
  "generate_random_smc_id True w =
     (if picks_known (ucast (rng w (rng_pos w)))
      then known_smc_ids ! (unat (ucast (rng w (rng_pos w + 1)) :: u32) mod length known_smc_ids)
      else 0xb2000000 OR (ucast (rng w (rng_pos w + 1)) AND 0x00ffffff),
      w\<lparr>rng_pos := rng_pos w + 2\<rparr>) \<and>
   unat (ucast (rng w (rng_pos w + 1)) :: u32) mod length known_smc_ids < length known_smc_ids \<and>
   (picks_known (ucast (rng w (rng_pos w))) \<longrightarrow>
      fst (generate_random_smc_id True w) \<in> set known_smc_ids) \<and>
   card {r. picks_known r} = 2 ^ 31 \<and> card (UNIV :: u32 set) = 2 ^ 32 \<and>
   0xb2000000 \<le> fst (generate_random_smc_id use_known w) \<and>
   fst (generate_random_smc_id use_known w) \<le> 0xb2ffffff"
proof -
  have "picks_known (ucast (rng w (rng_pos w))) \<longrightarrow>
      fst (generate_random_smc_id True w) \<in> set known_smc_ids"
    by (simp add: generate_random_smc_id_True corpus_index)
  then show ?thesis
    using generate_random_smc_id_range [of use_known w]
    by (simp add: generate_random_smc_id_True corpus_index picks_known_half card_word)
qed

text \<open>
  With odd draws the generator returns the corpus entry of index 1; with draws of zero
  it synthesizes \<open>0xb2000000\<close>.
\<close>

theorem generate_random_smc_id_total_witness:
  "picks_known (ucast (rng odd_world (rng_pos odd_world))) \<and>
   fst (generate_random_smc_id True odd_world) = 0xb2000004 \<and>
   fst (generate_random_smc_id True odd_world) \<in> set known_smc_ids \<and>
   fst (generate_random_smc_id True quiet_world) = 0xb2000000"
proof -
  have p: "picks_known (ucast (rng odd_world (rng_pos odd_world)))"
    by (simp add: odd_world_def insmod_state_def picks_known_def)
  have q: "\<not> picks_known (ucast (rng quiet_world (rng_pos quiet_world)))"
    by (simp add: quiet_world_def insmod_state_def picks_known_def)
  have r: "rng odd_world (rng_pos odd_world + 1) = 1" "rng quiet_world (rng_pos quiet_world + 1) = 0"
    by (simp_all add: odd_world_def quiet_world_def insmod_state_def)
  show ?thesis
    using generate_random_smc_id_total [of odd_world True]
      generate_random_smc_id_total [of quiet_world True] p q r
    by (simp add: known_smc_ids_def)
qed

subsection \<open>C7: the six arguments\<close>

text \<open>
  C7. An iteration passes six generated words to the monitor (and a zero after them).
  Slot \<open>i\<close> is what \<^verbatim>\<open>generate_random_param\<close> returns in the state the slots before
  it left, in which only the number of draws has changed, so that each slot reads
  draws of its own, made after those of the identifier. One call draws a pattern out
  of ten by the remainder of its first draw modulo 10 and returns the value of that
  pattern: zero, all ones, the sign bit, the largest positive signed value, a 32-bit
  draw, a 64-bit draw, the page size, the page size plus the low 12 bits of a draw,
  all ones again, or a 64-bit draw masked to its low 32 bits.
\<close>

theorem fuzz_iteration_params:
  "length (fst (generate_params 6 w)) = 6 \<and>
   (\<forall>i < 6. fst (generate_params 6 w) ! i = fst (generate_random_param (snd (generate_params i w))) \<and>
      only_draws w (snd (generate_params i w)) \<and>
      rng_pos (snd (generate_params i w)) < rng_pos (snd (generate_params (Suc i) w))) \<and>
   generate_random_param w =
     (pattern_value (pattern_of (ucast (rng w (rng_pos w)))) (rng w (rng_pos w + 1)),
      w\<lparr>rng_pos := rng_pos w + 1 + pattern_draws (pattern_of (ucast (rng w (rng_pos w))))\<rparr>) \<and>
   length pattern_set = 10 \<and> distinct pattern_set \<and>
   pattern_value Random_32 d \<le> 0xFFFFFFFF \<and> pattern_value Random_low_32 d \<le> 0xFFFFFFFF \<and>
   0x1000 \<le> pattern_value Near_page d \<and> pattern_value Near_page d \<le> 0x1FFF \<and>
   new_events w (snd (fuzz_iteration w)) =
     [SmcCall
        (fst (generate_random_smc_id True
           (w\<lparr>stats := (stats w)\<lparr>total_iterations := total_iterations (stats w) + 1\<rparr>\<rparr>)))
        (fst (generate_params 6 (snd (generate_random_smc_id True
           (w\<lparr>stats := (stats w)\<lparr>total_iterations := total_iterations (stats w) + 1\<rparr>\<rparr>)))) @ [0])] \<and>
   rng_pos (snd (generate_random_smc_id True w)) = rng_pos w + 2"
proof -
  have slots: "\<forall>i < 6. fst (generate_params 6 w) ! i =
        fst (generate_random_param (snd (generate_params i w))) \<and>
      only_draws w (snd (generate_params i w)) \<and>
      rng_pos (snd (generate_params i w)) < rng_pos (snd (generate_params (Suc i) w))"
    by (intro allI impI conjI generate_params_nth generate_params_only generate_params_draws)
  have set: "length pattern_set = 10" "distinct pattern_set"
    by (simp_all add: pattern_set_def)
  have low: "pattern_value Random_low_32 d \<le> 0xFFFFFFFF"
    using word_and_le1 [of d "0xFFFFFFFF"] by simp
  have bounds: "pattern_value Random_32 d \<le> 0xFFFFFFFF"
      "0x1000 \<le> pattern_value Near_page d" "pattern_value Near_page d \<le> 0x1FFF"
    using near_page_bounds [of "ucast d"] random_32_bound [of "ucast d"] by simp_all
  have pos: "rng_pos (snd (generate_random_smc_id True w)) = rng_pos w + 2"
    by (simp add: generate_random_smc_id_True)
  show ?thesis
    using slots set low bounds pos generate_params_length [of 6 w]
      generate_random_param_pattern [of w] fuzz_iteration_event [of w]
    by (intro conjI)
qed

text \<open>
  The fourth slot in the quiet world; a first draw of 0 gives zero, a first draw of 1
  gives all ones.
\<close>

theorem fuzz_iteration_params_witness:
  "fst (generate_params 6 quiet_world) ! 3 =
     fst (generate_random_param (snd (generate_params 3 quiet_world))) \<and>
   fst (generate_random_param quiet_world) = 0 \<and>
   fst (generate_random_param odd_world) = 2 ^ 64 - 1"
proof -
  have i: "(3 :: nat) < 6" by simp
  have q: "pattern_of (ucast (rng quiet_world (rng_pos quiet_world))) = Zero"
    by (simp add: quiet_world_def insmod_state_def pattern_of_def pattern_set_def)
  have p: "pattern_of (ucast (rng odd_world (rng_pos odd_world))) = All_ones"
    by (simp add: odd_world_def insmod_state_def pattern_of_def pattern_set_def)
  show ?thesis
    using fuzz_iteration_params [of quiet_world 0] fuzz_iteration_params [of odd_world 0] i q p
    by simp
qed

subsection \<open>C8: reset\<close>

text \<open>
  C8, as the code has it. Once the reset command has run, the statistics are all zero
  and a read shows zero in every counter, in the last identifier and in the last
  result; the flag is not touched. A read that does not overlap the command sees the
  state before it or the state after it, in full. The code takes no lock, so this says
  nothing of a read that overlaps the command.
\<close>

theorem reset_then_read:
  "stats (run_command Reset w) = zero_stats \<and>
   proc_read 0 (run_command Reset w) =
     Some [(''Fuzzing Enabled'', Fmt_s (if fuzzing_enabled w then ''yes'' else ''no'')),
      (''Total Iterations'', Fmt_llu 0), (''Crashes'', Fmt_llu 0), (''Hangs'', Fmt_llu 0),
      (''Interesting Cases'', Fmt_llu 0), (''Valid Responses'', Fmt_llu 0),
      (''Error Responses'', Fmt_llu 0), (''Last SMC ID'', Fmt_08x 0), (''Last Result'', Fmt_llx 0)] \<and>
   (length bytes < 128 \<and> parse_command (c_string bytes) = Some Reset \<longrightarrow>
      proc_write (User_bytes bytes) w = (int (length bytes), run_command Reset w)) \<and>
   racing_read 0 Reset w = status_args (run_command Reset w) \<and>
   racing_read 9 Reset w = status_args w"
proof (intro conjI impI)
  show "stats (run_command Reset w) = zero_stats" by (simp add: printk_frame)
  show "proc_read 0 (run_command Reset w) =
     Some [(''Fuzzing Enabled'', Fmt_s (if fuzzing_enabled w then ''yes'' else ''no'')),
      (''Total Iterations'', Fmt_llu 0), (''Crashes'', Fmt_llu 0), (''Hangs'', Fmt_llu 0),
      (''Interesting Cases'', Fmt_llu 0), (''Valid Responses'', Fmt_llu 0),
      (''Error Responses'', Fmt_llu 0), (''Last SMC ID'', Fmt_08x 0), (''Last Result'', Fmt_llx 0)]"
    by (simp only: proc_read_def status_args_reset) simp
  show "racing_read 0 Reset w = status_args (run_command Reset w)"
    by (simp add: racing_read_def)
  show "racing_read 9 Reset w = status_args w"
    by (simp add: racing_read_def status_args_def)
next
  assume "length bytes < 128 \<and> parse_command (c_string bytes) = Some Reset"
  then show "proc_write (User_bytes bytes) w = (int (length bytes), run_command Reset w)"
    by (simp add: proc_write_def del: run_command.simps)
qed

text \<open>Writing \<open>reset\<close> to the freshly loaded module, then reading.\<close>

theorem reset_then_read_witness:
  "proc_read 0 (snd (proc_write (User_bytes ''reset'') loaded_quiet)) =
     Some [(''Fuzzing Enabled'', Fmt_s ''yes''),
      (''Total Iterations'', Fmt_llu 0), (''Crashes'', Fmt_llu 0), (''Hangs'', Fmt_llu 0),
      (''Interesting Cases'', Fmt_llu 0), (''Valid Responses'', Fmt_llu 0),
      (''Error Responses'', Fmt_llu 0), (''Last SMC ID'', Fmt_08x 0), (''Last Result'', Fmt_llx 0)]"
proof -
  have p: "length ''reset'' < 128 \<and> parse_command (c_string ''reset'') = Some Reset"
    by (simp add: parse_command_def sscanf_fuzz_u_def strncmp_eq_def c_string_def)
  show ?thesis
    using reset_then_read [of loaded_quiet "''reset''"] p loaded_quiet_stats(2)
    by (simp del: run_command.simps)
qed

text \<open>
  A read of the freshly loaded module that is overtaken by a reset after its sixth load
  shows six valid responses, as before the reset, and no last identifier, as after it:
  neither of the two snapshots.
\<close>

theorem reset_seen_in_part:
  "racing_read 6 Reset loaded_quiet =
     [(''Fuzzing Enabled'', Fmt_s ''yes''),
      (''Total Iterations'', Fmt_llu 0), (''Crashes'', Fmt_llu 0), (''Hangs'', Fmt_llu 0),
      (''Interesting Cases'', Fmt_llu 0), (''Valid Responses'', Fmt_llu 6),
      (''Error Responses'', Fmt_llu 0), (''Last SMC ID'', Fmt_08x 0), (''Last Result'', Fmt_llx 0)] \<and>
   racing_read 6 Reset loaded_quiet \<noteq> status_args loaded_quiet \<and>
   racing_read 6 Reset loaded_quiet \<noteq> status_args (run_command Reset loaded_quiet)"
  by (simp add: racing_read_def status_args_def loaded_quiet_stats printk_def zero_stats_def)

subsection \<open>C9: commands that are not understood\<close>




subsection \<open>C10: crashes and hangs\<close>

text \<open>
  C10. From module load on, whatever commands follow (\<open>fuzz N\<close>, \<open>test\<close>, \<open>enable\<close>,
  \<open>disable\<close>, \<open>reset\<close>), the counters of crashes and hangs are zero, and the status
  prints them, as its third and fourth value.
\<close>

theorem crashes_hangs_stay_zero:
  "crashes (stats (run_commands cs (snd (smc_fuzzer_init ok (insmod_state e m p))))) = 0 \<and>
   hangs (stats (run_commands cs (snd (smc_fuzzer_init ok (insmod_state e m p))))) = 0 \<and>
   status_args (run_commands cs (snd (smc_fuzzer_init ok (insmod_state e m p)))) ! 2 =
     (''Crashes'', Fmt_llu 0) \<and>
   status_args (run_commands cs (snd (smc_fuzzer_init ok (insmod_state e m p)))) ! 3 =
     (''Hangs'', Fmt_llu 0)"
proof -
  let ?w = "snd (smc_fuzzer_init ok (insmod_state e m p))"
  have "crashes (stats ?w) = 0 \<and> hangs (stats ?w) = 0"
    by (simp add: smc_fuzzer_init_stats insmod_state_stats classified_zero)
  then have "crashes (stats (run_commands cs ?w)) = 0 \<and> hangs (stats (run_commands cs ?w)) = 0"
    by (rule run_commands_crashes_hangs)
  then show ?thesis by (simp add: status_args_def)
qed

end
